theory Spec2Isabelle
  imports Complex_Main
begin

section \<open>Table seating by integer programming with subtour elimination\<close>

text \<open>
  A shallow embedding of \<^verbatim>\<open>src/solve_sitting.ts\<close> (\<^verbatim>\<open>findSubtours\<close>,
  \<^verbatim>\<open>solveSitting\<close>) and of \<^verbatim>\<open>docs/matrix_to_table.mjs\<close>
  (\<^verbatim>\<open>extractTableCycle\<close>).

  Conventions of the embedding:
  \<^item> a JavaScript \<^verbatim>\<open>number\<close> that holds an array index, a count or a GLPK constant is
    a \<^typ>\<open>nat\<close> or an \<^typ>\<open>int\<close>; a number that holds a preference, a coefficient,
    a bound or a solver value is a \<^typ>\<open>real\<close> (finite values only; sums are exact);
  \<^item> a \<^verbatim>\<open>throw\<close> is a value \<open>Inl e\<close> of a sum type;
  \<^item> \<^verbatim>\<open>console.log\<close>, \<^verbatim>\<open>console.warn\<close>, \<^verbatim>\<open>console.error\<close> and
    \<^verbatim>\<open>console.assert\<close> write to the console and return; none of them throws,
    so none of them is a branch of the control flow;
  \<^item> the external solver is a field of the GLPK instance: a function of the number of
    calls made before in this run and of the submitted problem.
\<close>

subsection \<open>Strings\<close>

text \<open>Template literals print an index in decimal.\<close>

definition digitChar :: "nat \<Rightarrow> char" where
  "digitChar d = ''0123456789'' ! d"

fun showNat :: "nat \<Rightarrow> string" where
  "showNat k = (if k < 10 then [digitChar k] else showNat (k div 10) @ [digitChar (k mod 10)])"

declare showNat.simps [simp del]

definition showInt :: "int \<Rightarrow> string" where
  "showInt z = (if z < 0 then CHR ''-'' # showNat (nat (- z)) else showNat (nat z))"

text \<open>\<^verbatim>\<open>xs.join('_')\<close> on a list of indices.\<close>

fun joinUnderscore :: "nat list \<Rightarrow> string" where
  "joinUnderscore [] = []"
| "joinUnderscore [k] = showNat k"
| "joinUnderscore (k # l # ks) = showNat k @ CHR ''_'' # joinUnderscore (l # ks)"

text \<open>\<^verbatim>\<open>s.split('_')\<close>: the pieces between the separators, the empty ones too.\<close>

fun split :: "char \<Rightarrow> string \<Rightarrow> string list" where
  "split sep [] = [[]]"
| "split sep (c # cs) =
     (if c = sep then [] # split sep cs
      else (case split sep cs of [] \<Rightarrow> [[c]] | p # ps \<Rightarrow> (c # p) # ps))"

text \<open>\<^verbatim>\<open>parts[k]\<close>: \<^verbatim>\<open>undefined\<close> (here \<open>None\<close>) past the end.\<close>

definition partAt :: "string list \<Rightarrow> nat \<Rightarrow> string option" where
  "partAt parts k = (if k < length parts then Some (parts ! k) else None)"

definition isWhite :: "char \<Rightarrow> bool" where
  "isWhite c = (c \<in> set [CHR '' '', CHR 0x09, CHR 0x0A, CHR 0x0B, CHR 0x0C, CHR 0x0D])"

definition isDigit :: "char \<Rightarrow> bool" where
  "isDigit c = (c \<in> set ''0123456789'')"

definition digitVal :: "char \<Rightarrow> int" where
  "digitVal c = int (of_char c) - 48"

text \<open>
  \<^verbatim>\<open>parseInt(s, 10)\<close>: leading white space is skipped, one sign is read, then the
  longest run of decimal digits; with no digit the result is \<^verbatim>\<open>NaN\<close>, here \<open>None\<close>.
  \<^verbatim>\<open>parseInt(undefined, 10)\<close> is \<^verbatim>\<open>NaN\<close> as well. Names are taken to be ASCII.
\<close>

definition parseInt :: "string option \<Rightarrow> int option" where
  "parseInt t =
     (case t of
        None \<Rightarrow> None
      | Some s \<Rightarrow>
          (let s1 = dropWhile isWhite s;
               neg = (s1 \<noteq> [] \<and> hd s1 = CHR ''-'');
               s2 = (if s1 \<noteq> [] \<and> (hd s1 = CHR ''-'' \<or> hd s1 = CHR ''+'') then tl s1 else s1);
               z = takeWhile isDigit s2
           in if z = [] then None
              else Some ((if neg then - 1 else 1) * foldl (\<lambda>a c. 10 * a + digitVal c) 0 z)))"

subsection \<open>The solver's interface\<close>

text \<open>
  The interfaces of \<^verbatim>\<open>glpk_facade.ts\<close>. Several of them have a field \<^verbatim>\<open>name\<close> or
  \<^verbatim>\<open>vars\<close>, so each record's fields carry a prefix here.
\<close>

record GLPKVar =
  var_name :: string
  var_coef :: real

record GLPKBound =
  bnd_type :: int
  bnd_ub :: real
  bnd_lb :: real

record GLPKConstraint =
  con_name :: string
  con_vars :: "GLPKVar list"
  con_bnds :: GLPKBound

record GLPKObjective =
  obj_direction :: int
  obj_name :: string
  obj_vars :: "GLPKVar list"

record GLPKProblem =
  prob_name :: string
  prob_objective :: GLPKObjective
  prob_subjectTo :: "GLPKConstraint list"
  prob_binaries :: "string list"

text \<open>
  \<^verbatim>\<open>result.result.vars\<close> is an object from names to numbers; \<^verbatim>\<open>for ... in\<close>
  enumerates its string keys in insertion order, which is the order of the list.
\<close>

record GLPKSolveResult =
  res_status :: int
  res_vars :: "(string \<times> real) list"

record GLPKSolverOptions =
  opt_msglev :: int
  opt_presol :: bool

text \<open>
  The GLPK instance: its constants, and \<^verbatim>\<open>solve\<close>. The promise \<^verbatim>\<open>solve\<close> returns
  either rejects with a message (\<open>Inl\<close>) or resolves with a result; the first argument is
  the number of calls made before in this run, so that the solver may answer each call
  differently.
\<close>

record GLPKInstance =
  GLP_MAX :: int
  GLP_FX :: int
  GLP_UP :: int
  GLP_MSG_OFF :: int
  GLP_UNDEF :: int
  GLP_FEAS :: int
  GLP_INFEAS :: int
  GLP_NOFEAS :: int
  GLP_OPT :: int
  GLP_UNBND :: int
  solve :: "nat \<Rightarrow> GLPKProblem \<Rightarrow> GLPKSolverOptions \<Rightarrow> string + GLPKSolveResult"

type_synonym AdjacencyMatrix = "int list list"

text \<open>
  An entry of the preference matrix is \<open>Some v\<close> when \<^verbatim>\<open>typeof pref[i][j] === 'number'\<close>
  and \<open>None\<close> when it is anything else (\<^verbatim>\<open>undefined\<close>, \<^verbatim>\<open>null\<close>).
\<close>

type_synonym PreferenceMatrix = "real option list list"

text \<open>\<^verbatim>\<open>pref[i][j]\<close>: \<^verbatim>\<open>undefined\<close> past the end of row \<open>i\<close>.\<close>

definition prefAt :: "PreferenceMatrix \<Rightarrow> nat \<Rightarrow> nat \<Rightarrow> real option" where
  "prefAt pref i j = (if j < length (pref ! i) then pref ! i ! j else None)"

subsection \<open>The model builder\<close>

definition EPSILON :: real where
  "EPSILON = 1 / 1000"

definition getVarName :: "nat \<Rightarrow> nat \<Rightarrow> string" where
  "getVarName i j = ''x_'' @ showNat i @ ''_'' @ showNat j"

definition indices :: "nat \<Rightarrow> nat list" where
  "indices n = [0..<n]"

definition objectiveVars :: "PreferenceMatrix \<Rightarrow> nat \<Rightarrow> GLPKVar list" where
  "objectiveVars pref n =
     concat (map (\<lambda>i. map (\<lambda>j. \<lparr>var_name = getVarName i j,
                                   var_coef = (case prefAt pref i j of
                                                 Some v \<Rightarrow> v + EPSILON
                                               | None \<Rightarrow> EPSILON)\<rparr>)
                          (filter (\<lambda>j. i \<noteq> j) (indices n)))
                 (indices n))"

definition rowSumConstraint :: "GLPKInstance \<Rightarrow> nat \<Rightarrow> nat \<Rightarrow> GLPKConstraint" where
  "rowSumConstraint glpk n i =
     \<lparr>con_name = ''RowSum_'' @ showNat i,
      con_vars = map (\<lambda>j. \<lparr>var_name = getVarName i j, var_coef = 1\<rparr>)
                     (filter (\<lambda>j. i \<noteq> j) (indices n)),
      con_bnds = \<lparr>bnd_type = GLP_FX glpk, bnd_ub = 2, bnd_lb = 2\<rparr>\<rparr>"

definition symmConstraint :: "GLPKInstance \<Rightarrow> nat \<Rightarrow> nat \<Rightarrow> GLPKConstraint" where
  "symmConstraint glpk i j =
     \<lparr>con_name = ''Symm_'' @ showNat i @ ''_'' @ showNat j,
      con_vars = [\<lparr>var_name = getVarName i j, var_coef = 1\<rparr>,
                  \<lparr>var_name = getVarName j i, var_coef = - 1\<rparr>],
      con_bnds = \<lparr>bnd_type = GLP_FX glpk, bnd_ub = 0, bnd_lb = 0\<rparr>\<rparr>"

definition baseLpProblem :: "GLPKInstance \<Rightarrow> PreferenceMatrix \<Rightarrow> GLPKProblem" where
  "baseLpProblem glpk pref =
     (let n = length pref in
      \<lparr>prob_name = ''TableSitting'',
       prob_objective =
         \<lparr>obj_direction = GLP_MAX glpk,
          obj_name = ''TotalPreference'',
          obj_vars = objectiveVars pref n\<rparr>,
       prob_subjectTo =
         map (rowSumConstraint glpk n) (indices n) @
         concat (map (\<lambda>i. map (\<lambda>j. symmConstraint glpk i j)
                              (filter (\<lambda>j. i < j) (indices n)))
                     (indices n)),
       prob_binaries =
         concat (map (\<lambda>i. map (\<lambda>j. getVarName i j) (filter (\<lambda>j. i \<noteq> j) (indices n)))
                     (indices n))\<rparr>)"

definition solverOptions :: "GLPKInstance \<Rightarrow> GLPKSolverOptions" where
  "solverOptions glpk = \<lparr>opt_msglev = GLP_MSG_OFF glpk, opt_presol = True\<rparr>"

subsection \<open>The subtour detector\<close>

text \<open>
  \<^verbatim>\<open>adjMatrix[node][j] === 1\<close>. An entry past the end of a row is \<^verbatim>\<open>undefined\<close> and the
  test is false. \<^verbatim>\<open>findSubtours\<close> reads rows only at indices below \<open>n\<close>
  (lemma \<open>traceCycle_in_range\<close>).
\<close>

definition entryIsOne :: "AdjacencyMatrix \<Rightarrow> nat \<Rightarrow> nat \<Rightarrow> bool" where
  "entryIsOne adjMatrix node j =
     (node < length adjMatrix \<and> j < length (adjMatrix ! node) \<and> adjMatrix ! node ! j = 1)"

text \<open>The loop of \<^verbatim>\<open>getNeighbors\<close>: the columns \<open>j < n\<close> that hold a 1 in the node's row.\<close>

definition neighborsOf :: "AdjacencyMatrix \<Rightarrow> nat \<Rightarrow> nat list" where
  "neighborsOf adjMatrix node =
     filter (\<lambda>j. entryIsOne adjMatrix node j) [0..<length adjMatrix]"

definition getNeighbors :: "AdjacencyMatrix \<Rightarrow> nat \<Rightarrow> nat list" where
  "getNeighbors adjMatrix node =
     (let n = length adjMatrix; neighbors = neighborsOf adjMatrix node
      in if \<not> 3 \<le> n \<and> n \<noteq> 2 \<and> n = 1 then []
         else if length neighbors = 2 \<or> length neighbors = 1 then neighbors else [])"

text \<open>What one pass through the body of the \<^verbatim>\<open>while\<close> loop decides after reading the neighbours.\<close>

datatype move = Stop | Goto nat | Invalidate

definition chooseMove :: "nat \<Rightarrow> nat list \<Rightarrow> int \<Rightarrow> move" where
  "chooseMove n neighbors prevNode =
     (if length neighbors = 0 \<and> n = 1 then Stop
      else if length neighbors = 1 \<and> n = 2 then Goto (neighbors ! 0)
      else if length neighbors = 2
           then Goto (if int (neighbors ! 0) = prevNode then neighbors ! 1 else neighbors ! 0)
      else Invalidate)"

text \<open>
  The \<^verbatim>\<open>while (!visited[currentNode])\<close> loop. \<^verbatim>\<open>visited\<close> is read only through
  \<^verbatim>\<open>!visited[k]\<close> and written one index at a time, so it is the function from an index to
  its flag. An invalidated trace (\<^verbatim>\<open>currentCycle.length = 0\<close>) returns the empty cycle;
  the nodes it marked stay marked.
\<close>

function traceCycle ::
  "AdjacencyMatrix \<Rightarrow> nat \<Rightarrow> (nat \<Rightarrow> bool) \<Rightarrow> nat list \<Rightarrow> nat \<Rightarrow> int
     \<Rightarrow> (nat \<Rightarrow> bool) \<times> nat list" where
  "traceCycle adjMatrix i visited currentCycle currentNode prevNode =
     (if visited currentNode then (visited, currentCycle)
      else
        (let visited1 = visited(currentNode := True);
             cycle1 = currentCycle @ [currentNode]
         in case chooseMove (length adjMatrix) (getNeighbors adjMatrix currentNode) prevNode of
              Stop \<Rightarrow> (visited1, cycle1)
            | Invalidate \<Rightarrow> (visited1, [])
            | Goto nextNode \<Rightarrow>
                if visited1 nextNode
                then (if nextNode = i then (visited1, cycle1) else (visited1, []))
                else traceCycle adjMatrix i visited1 cycle1 nextNode (int currentNode)))"
  by pat_completeness auto

lemma getNeighbors_subset: "set (getNeighbors adjMatrix node) \<subseteq> {0..<length adjMatrix}"
  by (auto simp: getNeighbors_def neighborsOf_def Let_def)

lemma chooseMove_Goto_in_set:
  "chooseMove n neighbors prevNode = Goto k \<Longrightarrow> k \<in> set neighbors"
  by (auto simp: chooseMove_def split: if_splits)

lemma chooseMove_Goto_less:
  "chooseMove (length adjMatrix) (getNeighbors adjMatrix node) prevNode = Goto k
     \<Longrightarrow> k < length adjMatrix"
  using chooseMove_Goto_in_set getNeighbors_subset by fastforce

definition unvisitedCount :: "nat \<Rightarrow> (nat \<Rightarrow> bool) \<Rightarrow> nat" where
  "unvisitedCount n visited = card {k. k < n \<and> \<not> visited k}"

lemma unvisitedCount_mark:
  "k < n \<Longrightarrow> \<not> visited k \<Longrightarrow> unvisitedCount n (visited(k := True)) < unvisitedCount n visited"
proof -
  assume k: "k < n" and nv: "\<not> visited k"
  have fin: "finite {j. j < n \<and> \<not> visited j}" by simp
  have "{j. j < n \<and> \<not> (visited(k := True)) j} \<subset> {j. j < n \<and> \<not> visited j}"
    using k nv by auto
  then show ?thesis
    unfolding unvisitedCount_def using fin by (rule psubset_card_mono[rotated])
qed

lemma unvisitedCount_mark_outside:
  "\<not> k < n \<Longrightarrow> unvisitedCount n (visited(k := True)) = unvisitedCount n visited"
  unfolding unvisitedCount_def by (rule arg_cong[where f = card]) auto

termination traceCycle
proof (relation "measure (\<lambda>(adjMatrix, i, visited, currentCycle, currentNode, prevNode).
    unvisitedCount (length adjMatrix) visited + (if currentNode < length adjMatrix then 0 else 1))")
  show "wf (measure (\<lambda>(adjMatrix, i, visited, currentCycle, currentNode, prevNode).
    unvisitedCount (length adjMatrix) visited + (if currentNode < length adjMatrix then 0 else 1)))"
    by simp
next
  fix adjMatrix :: AdjacencyMatrix and i :: nat and visited :: "nat \<Rightarrow> bool"
    and currentCycle :: "nat list" and currentNode :: nat and prevNode :: int
    and x xa :: "nat \<Rightarrow> bool" and xb :: "nat list" and x2 :: nat
  assume nv: "\<not> visited currentNode"
    and x: "x = visited(currentNode := True)"
    and mv: "chooseMove (length adjMatrix) (getNeighbors adjMatrix currentNode) prevNode = Goto x2"
  have lt: "x2 < length adjMatrix" using mv by (rule chooseMove_Goto_less)
  show "((adjMatrix, i, x, xb, x2, int currentNode),
         (adjMatrix, i, visited, currentCycle, currentNode, prevNode))
        \<in> measure (\<lambda>(adjMatrix, i, visited, currentCycle, currentNode, prevNode).
            unvisitedCount (length adjMatrix) visited +
            (if currentNode < length adjMatrix then 0 else 1))"
  proof (cases "currentNode < length adjMatrix")
    case True
    then show ?thesis
      using unvisitedCount_mark[of currentNode "length adjMatrix" visited] nv lt x by simp
  next
    case False
    then show ?thesis
      using unvisitedCount_mark_outside[of currentNode "length adjMatrix" visited] lt x by simp
  qed
qed

declare traceCycle.simps [simp del]

text \<open>The body of the \<^verbatim>\<open>for\<close> loop over the start nodes.\<close>

definition visitStart ::
  "AdjacencyMatrix \<Rightarrow> (nat \<Rightarrow> bool) \<times> nat list list \<Rightarrow> nat
     \<Rightarrow> (nat \<Rightarrow> bool) \<times> nat list list" where
  "visitStart adjMatrix st i =
     (case st of (visited, subtours) \<Rightarrow>
        if \<not> visited i then
          (case traceCycle adjMatrix i visited [] i (- 1) of (visited1, currentCycle) \<Rightarrow>
             if length currentCycle > 0 then (visited1, subtours @ [currentCycle])
             else if \<not> visited1 i \<and> length adjMatrix > 0 then (visited1(i := True), subtours)
             else (visited1, subtours))
        else (visited, subtours))"

definition findSubtours :: "AdjacencyMatrix \<Rightarrow> nat list list" where
  "findSubtours adjMatrix =
     (let n = length adjMatrix in
      if n = 0 then []
      else snd (foldl (visitStart adjMatrix) (\<lambda>k. False, []) [0..<n]))"

subsection \<open>The solution interpreter\<close>

text \<open>\<^verbatim>\<open>Math.round\<close>: the nearest integer, a tie going up.\<close>

definition mathRound :: "real \<Rightarrow> int" where
  "mathRound v = \<lfloor>v + 1 / 2\<rfloor>"

text \<open>
  One pass through the body of the \<^verbatim>\<open>for (const varName in result.result.vars)\<close> loop:
  a name that starts with \<^verbatim>\<open>x_\<close> is split at the underscores, the second and third
  piece are parsed, and the rounded value is stored when both indices are in range.
\<close>

definition setVar :: "nat \<Rightarrow> AdjacencyMatrix \<Rightarrow> string \<times> real \<Rightarrow> AdjacencyMatrix" where
  "setVar n varMatrix entry =
     (case entry of (varName, v) \<Rightarrow>
        if take 2 varName = ''x_'' then
          (let parts = split (CHR ''_'') varName;
               i = parseInt (partAt parts 1);
               j = parseInt (partAt parts 2)
           in case (i, j) of
                (Some i', Some j') \<Rightarrow>
                  if 0 \<le> i' \<and> i' < int n \<and> 0 \<le> j' \<and> j' < int n
                  then varMatrix[nat i' := (varMatrix ! nat i')[nat j' := mathRound v]]
                  else varMatrix
              | _ \<Rightarrow> varMatrix)
        else varMatrix)"

definition buildVarMatrix :: "nat \<Rightarrow> (string \<times> real) list \<Rightarrow> AdjacencyMatrix" where
  "buildVarMatrix n vars = foldl (setVar n) (replicate n (replicate n 0)) vars"

text \<open>
  The conditions of the \<^verbatim>\<open>console.assert\<close> calls in the block that verifies the result
  matrix: symmetry off the diagonal, a zero diagonal, and every row summing to 2 off the
  diagonal. \<^verbatim>\<open>console.assert\<close> prints a message when its condition is false and returns,
  so the \<^verbatim>\<open>try\<close> block around the calls never throws and its \<^verbatim>\<open>catch\<close> clause
  (which would throw "Solver returned an invalid matrix") is never entered.
\<close>

definition rowSumOffDiagonal :: "AdjacencyMatrix \<Rightarrow> nat \<Rightarrow> nat \<Rightarrow> int" where
  "rowSumOffDiagonal varMatrix n i =
     foldl (\<lambda>rowSum j. if i \<noteq> j then rowSum + varMatrix ! i ! j else rowSum) 0 [0..<n]"

definition resultAssertionsHold :: "nat \<Rightarrow> AdjacencyMatrix \<Rightarrow> bool" where
  "resultAssertionsHold n varMatrix =
     list_all (\<lambda>i.
        list_all (\<lambda>j. if i \<noteq> j then varMatrix ! i ! j = varMatrix ! j ! i
                       else varMatrix ! i ! i = 0) [0..<n]
        \<and> rowSumOffDiagonal varMatrix n i = 2) [0..<n]"

subsection \<open>The cutting-plane controller\<close>

text \<open>Every \<^verbatim>\<open>throw new Error(...)\<close> of \<^verbatim>\<open>solveSitting\<close>, with the values its message prints.\<close>

datatype error =
    SolverThrew nat string
  | NoSingleCycle nat string
  | SolverFailed string int
  | InvalidMatrix nat string
  | NoProgress
  | NoCycles nat
  | WrongCycleLength nat nat
  | BudgetExhausted nat

text \<open>The message of each error, as the template literals build it.\<close>

fun message :: "error \<Rightarrow> string" where
  "message (SolverThrew k msg) =
     ''GLPK solver encountered an error during iteration '' @ showNat k @ '': '' @ msg"
| "message (NoSingleCycle k statusText) =
     ''Solver failed after '' @ showNat k @ '' iterations. Status: '' @ statusText @
     ''. No single-cycle solution found satisfying all constraints.''"
| "message (SolverFailed statusText status) =
     ''Solver failed. Status: '' @ statusText @ '' ('' @ showInt status @ '').''"
| "message (InvalidMatrix k msg) =
     ''Solver returned an invalid matrix (failed assertions) in iteration '' @ showNat k @
     ''. '' @ msg"
| "message NoProgress =
     ''Subtour elimination failed to progress. Potential issue with solver or cycle detection.''"
| "message (NoCycles n) =
     ''Inconsistent state: findSubtours found no cycles for n='' @ showNat n @ ''.''"
| "message (WrongCycleLength k n) =
     ''Inconsistent state: Found a single cycle of incorrect length '' @ showNat k @
     ''. Expected '' @ showNat n @ ''.''"
| "message (BudgetExhausted k) =
     ''Failed to find a single cycle solution within '' @ showNat k @ '' iterations.''"

text \<open>
  \<^verbatim>\<open>statusMap[status] || `Unknown (${status})`\<close>. In the object literal a later key
  replaces an equal earlier one, so the table is searched from its last entry.
\<close>

definition statusText :: "GLPKInstance \<Rightarrow> int \<Rightarrow> string" where
  "statusText glpk status =
     (case map_of (rev [(GLP_UNDEF glpk, ''Undefined''), (GLP_FEAS glpk, ''Feasible''),
                        (GLP_INFEAS glpk, ''Infeasible''),
                        (GLP_NOFEAS glpk, ''No Feasible Solution''),
                        (GLP_OPT glpk, ''Optimal''), (GLP_UNBND glpk, ''Unbounded'')]) status of
        Some t \<Rightarrow> t
      | None \<Rightarrow> ''Unknown ('' @ showInt status @ '')'')"

definition MAX_SUBTOUR_ITERATIONS :: "nat \<Rightarrow> nat" where
  "MAX_SUBTOUR_ITERATIONS n = n * 2"

definition lpProblemForIter :: "GLPKProblem \<Rightarrow> GLPKConstraint list \<Rightarrow> GLPKProblem" where
  "lpProblemForIter base currentSubtourConstraints =
     base\<lparr>prob_subjectTo := prob_subjectTo base @ currentSubtourConstraints\<rparr>"

text \<open>The elimination constraint built for one subtour \<open>S\<close>.\<close>

definition subtourConstraint :: "GLPKInstance \<Rightarrow> nat \<Rightarrow> nat list \<Rightarrow> GLPKConstraint" where
  "subtourConstraint glpk iter S =
     \<lparr>con_name = ''SubtourElim_'' @ showNat iter @ ''_'' @ joinUnderscore (take 5 S),
      con_vars = concat (map (\<lambda>i. map (\<lambda>j. \<lparr>var_name = getVarName i j, var_coef = 1\<rparr>)
                                       (filter (\<lambda>j. i < j) S)) S),
      con_bnds = \<lparr>bnd_type = GLP_UP glpk, bnd_ub = real (length S) - 1, bnd_lb = 0\<rparr>\<rparr>"

text \<open>
  The \<^verbatim>\<open>for (const S of subtours)\<close> loop: the state is the list
  \<^verbatim>\<open>currentSubtourConstraints\<close> and the counter \<^verbatim>\<open>addedConstraintsThisIteration\<close>.
\<close>

fun addSubtourConstraints ::
  "GLPKInstance \<Rightarrow> nat \<Rightarrow> nat \<Rightarrow> nat list list \<Rightarrow> GLPKConstraint list \<times> nat
     \<Rightarrow> GLPKConstraint list \<times> nat" where
  "addSubtourConstraints glpk n iter [] st = st"
| "addSubtourConstraints glpk n iter (S # rest) st =
     (case st of (currentSubtourConstraints, added) \<Rightarrow>
        if length S < n \<and> length S > 0
        then addSubtourConstraints glpk n iter rest
               (currentSubtourConstraints @ [subtourConstraint glpk iter S], added + 1)
        else addSubtourConstraints glpk n iter rest (currentSubtourConstraints, added))"

text \<open>How one pass through the body of the iteration loop ends.\<close>

datatype outcome = Return AdjacencyMatrix | Throw error | Continue "GLPKConstraint list"

text \<open>What follows the detection of the subtours of the result matrix.\<close>

definition afterSubtours ::
  "GLPKInstance \<Rightarrow> nat \<Rightarrow> nat \<Rightarrow> GLPKConstraint list \<Rightarrow> AdjacencyMatrix \<Rightarrow> nat list list
     \<Rightarrow> outcome" where
  "afterSubtours glpk n iter currentSubtourConstraints varMatrix subtours =
     (if length subtours = 1 \<and> length (subtours ! 0) = n then Return varMatrix
      else if length subtours > 1 then
        (case addSubtourConstraints glpk n iter subtours (currentSubtourConstraints, 0) of
           (constraints1, added) \<Rightarrow>
             if added = 0 \<and> length subtours > 0 \<and> iter > 0 then Throw NoProgress
             else Continue constraints1)
      else if length subtours = 0 \<and> n > 0 then Throw (NoCycles n)
      else if length subtours = 1 \<and> length (subtours ! 0) \<noteq> n
           then Throw (WrongCycleLength (length (subtours ! 0)) n)
      else Continue currentSubtourConstraints)"

text \<open>What follows a resolved call of the solver.\<close>

definition afterSolve ::
  "GLPKInstance \<Rightarrow> nat \<Rightarrow> nat \<Rightarrow> GLPKConstraint list \<Rightarrow> GLPKSolveResult \<Rightarrow> outcome" where
  "afterSolve glpk n iter currentSubtourConstraints result =
     (let status = res_status result in
      if status \<noteq> GLP_OPT glpk \<and> status \<noteq> GLP_FEAS glpk then
        (if iter > 0 \<and> (status = GLP_INFEAS glpk \<or> status = GLP_NOFEAS glpk)
         then Throw (NoSingleCycle (iter + 1) (statusText glpk status))
         else Throw (SolverFailed (statusText glpk status) status))
      else
        (let varMatrix = buildVarMatrix n (res_vars result)
         in afterSubtours glpk n iter currentSubtourConstraints varMatrix
              (findSubtours varMatrix)))"

definition iteration ::
  "GLPKInstance \<Rightarrow> nat \<Rightarrow> nat \<Rightarrow> GLPKConstraint list \<Rightarrow> GLPKProblem \<Rightarrow> outcome" where
  "iteration glpk n iter currentSubtourConstraints lpProblem =
     (case solve glpk iter lpProblem (solverOptions glpk) of
        Inl msg \<Rightarrow> Throw (SolverThrew (iter + 1) msg)
      | Inr result \<Rightarrow> afterSolve glpk n iter currentSubtourConstraints result)"

text \<open>
  The loop \<^verbatim>\<open>for (let iter = 0; iter < MAX_SUBTOUR_ITERATIONS; iter++)\<close>. Besides the
  accumulated constraints the state holds the problems submitted to the solver so far;
  the result is this list together with the returned matrix or the thrown error.
\<close>

function solveLoop ::
  "GLPKInstance \<Rightarrow> PreferenceMatrix \<Rightarrow> nat \<Rightarrow> GLPKConstraint list \<Rightarrow> GLPKProblem list
     \<Rightarrow> GLPKProblem list \<times> (error + AdjacencyMatrix)" where
  "solveLoop glpk pref iter currentSubtourConstraints submitted =
     (if iter < MAX_SUBTOUR_ITERATIONS (length pref) then
        (let lpProblem = lpProblemForIter (baseLpProblem glpk pref) currentSubtourConstraints
         in case iteration glpk (length pref) iter currentSubtourConstraints lpProblem of
              Return varMatrix \<Rightarrow> (submitted @ [lpProblem], Inr varMatrix)
            | Throw e \<Rightarrow> (submitted @ [lpProblem], Inl e)
            | Continue constraints1 \<Rightarrow>
                solveLoop glpk pref (iter + 1) constraints1 (submitted @ [lpProblem]))
      else (submitted, Inl (BudgetExhausted (MAX_SUBTOUR_ITERATIONS (length pref)))))"
  by pat_completeness auto
termination
  by (relation "measure (\<lambda>(glpk, pref, iter, cs, submitted).
        MAX_SUBTOUR_ITERATIONS (length pref) - iter)") auto

declare solveLoop.simps [simp del]

text \<open>The condition of \<^verbatim>\<open>console.assert(pref.every(row => row.length === n), ...)\<close>.\<close>

definition prefIsSquare :: "PreferenceMatrix \<Rightarrow> bool" where
  "prefIsSquare pref = list_all (\<lambda>row. length row = length pref) pref"

definition solveSitting ::
  "GLPKInstance \<Rightarrow> PreferenceMatrix \<Rightarrow> GLPKProblem list \<times> (error + AdjacencyMatrix)" where
  "solveSitting glpk pref =
     (let n = length pref in
      if n = 0 then ([], Inr [])
      else if n = 1 then ([], Inr [[0]])
      else if n = 2 then ([], Inr [[0, 1], [1, 0]])
      else solveLoop glpk pref 0 [] [])"

subsection \<open>The cycle extractor\<close>

text \<open>Every \<^verbatim>\<open>throw new Error(...)\<close> of \<^verbatim>\<open>extractTableCycle\<close>, with the values it prints.\<close>

datatype cycleError =
    InvalidDimensions nat
  | DegreeNotTwo nat nat nat
  | NotReturned nat nat
  | BadPath nat nat nat

text \<open>
  The loop \<^verbatim>\<open>for (let step = 0; step < n; step++)\<close>: the state is the path, the current
  node and the previous node (\<open>- 1\<close> at the start). The neighbours are collected as in
  \<^verbatim>\<open>findSubtours\<close>: the columns below \<open>n\<close> that hold a 1 in the row of the current node.
\<close>

function walkCycle ::
  "AdjacencyMatrix \<Rightarrow> nat \<Rightarrow> nat list \<Rightarrow> nat \<Rightarrow> int \<Rightarrow> cycleError + (nat list \<times> nat)" where
  "walkCycle resultMatrix step path currentNode prevNode =
     (if step < length resultMatrix then
        (let path1 = path @ [currentNode];
             neighbors = neighborsOf resultMatrix currentNode
         in if length neighbors \<noteq> 2
            then Inl (DegreeNotTwo currentNode (length neighbors) (length resultMatrix))
            else walkCycle resultMatrix (step + 1) path1
                   (if int (neighbors ! 0) = prevNode then neighbors ! 1 else neighbors ! 0)
                   (int currentNode))
      else Inr (path, currentNode))"
  by pat_completeness auto
termination
  by (relation "measure (\<lambda>(resultMatrix, step, path, currentNode, prevNode).
        length resultMatrix - step)") auto

declare walkCycle.simps [simp del]

definition extractTableCycle :: "AdjacencyMatrix \<Rightarrow> cycleError + nat list" where
  "extractTableCycle resultMatrix =
     (let n = length resultMatrix in
      if n = 0 then Inr []
      else if n = 1 then Inr [0]
      else if n = 2 then Inr [0, 1]
      else if length (resultMatrix ! 0) \<noteq> n then Inl (InvalidDimensions n)
      else
        (case walkCycle resultMatrix 0 [] 0 (- 1) of
           Inl e \<Rightarrow> Inl e
         | Inr (path, currentNode) \<Rightarrow>
             if currentNode \<noteq> 0 then Inl (NotReturned n currentNode)
             else if length path \<noteq> n \<or> card (set path) \<noteq> n
                  then Inl (BadPath (length path) (card (set path)) n)
             else Inr path))"

subsection \<open>Notions of the specification\<close>

text \<open>
  A cycle is an ordered sequence of distinct node indices whose consecutive entries, the
  last and the first included, are adjacent. Two nodes are neighbours on the cycle \<open>c\<close>
  when they stand at consecutive places of it.
\<close>

definition cycleAdjacent :: "nat list \<Rightarrow> nat \<Rightarrow> nat \<Rightarrow> bool" where
  "cycleAdjacent c u v =
     list_ex (\<lambda>k. (c ! k = u \<and> c ! (Suc k mod length c) = v) \<or>
                   (c ! k = v \<and> c ! (Suc k mod length c) = u)) [0..<length c]"

text \<open>
  An \<open>n \<times> n\<close> binary matrix is the single cycle \<open>c\<close> spanning all \<open>n\<close> nodes when \<open>c\<close>
  lists every node once and the matrix holds a 1 exactly between neighbours on \<open>c\<close>.
\<close>

definition isSingleCycleMatrix :: "AdjacencyMatrix \<Rightarrow> nat list \<Rightarrow> bool" where
  "isSingleCycleMatrix m c =
     (list_all (\<lambda>row. length row = length m) m \<and>
      length c = length m \<and> distinct c \<and> list_all (\<lambda>v. v < length m) c \<and>
      list_all (\<lambda>u. list_all (\<lambda>v. m ! u ! v = (if cycleAdjacent c u v then 1 else 0))
                           [0..<length m]) [0..<length m])"





text \<open>
  The entries of \<open>p\<close> are linked up to \<open>e\<close> when each of them holds a 1 in the column of the
  entry that follows it, and the last one in the column of \<open>e\<close>. With \<open>e\<close> the first entry of
  \<open>p\<close>, consecutive entries of \<open>p\<close> are adjacent, the wraparound included.
\<close>

fun linked :: "AdjacencyMatrix \<Rightarrow> nat list \<Rightarrow> nat \<Rightarrow> bool" where
  "linked m [] e = True"
| "linked m [x] e = entryIsOne m x e"
| "linked m (x # y # ys) e = (entryIsOne m x y \<and> linked m (y # ys) e)"

subsection \<open>Auxiliary notions of the proofs\<close>

text \<open>
  What the detector's outer loop maintains: the cycles collected so far are not empty,
  share no node and repeat none, hold only marked nodes below \<open>n\<close>, and for \<open>n \<ge> 3\<close> only
  nodes with exactly two neighbours.
\<close>

definition detectorInv :: "AdjacencyMatrix \<Rightarrow> (nat \<Rightarrow> bool) \<times> nat list list \<Rightarrow> bool" where
  "detectorInv adj st =
     (case st of (visited, subtours) \<Rightarrow>
        [] \<notin> set subtours \<and> distinct (concat subtours) \<and>
        set (concat subtours) \<subseteq> {v. visited v} \<and>
        (\<forall>v \<in> set (concat subtours). v < length adj) \<and>
        (3 \<le> length adj \<longrightarrow> (\<forall>v \<in> set (concat subtours). length (neighborsOf adj v) = 2)))"

text \<open>The node that stands \<open>s\<close> places after place \<open>p0\<close> on the cycle \<open>c\<close>, in direction \<open>d\<close>.\<close>

definition ringNode :: "nat list \<Rightarrow> nat \<Rightarrow> int \<Rightarrow> nat \<Rightarrow> nat" where
  "ringNode c p0 d s = c ! nat ((int p0 + d * int s) mod int (length c))"

subsection \<open>Concrete instances\<close>

text \<open>A GLPK instance with the constants of GLPK's header and a given solver.\<close>

definition glpkStd ::
  "(nat \<Rightarrow> GLPKProblem \<Rightarrow> GLPKSolverOptions \<Rightarrow> string + GLPKSolveResult) \<Rightarrow> GLPKInstance" where
  "glpkStd f =
     \<lparr>GLP_MAX = 2, GLP_FX = 5, GLP_UP = 3, GLP_MSG_OFF = 0, GLP_UNDEF = 1, GLP_FEAS = 2,
      GLP_INFEAS = 3, GLP_NOFEAS = 4, GLP_OPT = 5, GLP_UNBND = 6, solve = f\<rparr>"

text \<open>A solver that answers every call with the same result.\<close>

definition constantSolver ::
  "GLPKSolveResult \<Rightarrow> nat \<Rightarrow> GLPKProblem \<Rightarrow> GLPKSolverOptions \<Rightarrow> string + GLPKSolveResult" where
  "constantSolver result k lpProblem options = Inr result"

text \<open>The solver's answer that seats three people in the triangle.\<close>

definition triangleResult :: GLPKSolveResult where
  "triangleResult =
     \<lparr>res_status = 5,
      res_vars = [(''x_0_1'', 1), (''x_0_2'', 1), (''x_1_0'', 1), (''x_1_2'', 1),
                  (''x_2_0'', 1), (''x_2_1'', 1)]\<rparr>"

definition zeroPref :: "nat \<Rightarrow> PreferenceMatrix" where
  "zeroPref n = replicate n (replicate n (Some 0))"

text \<open>The solver's answer that seats six people in two triangles.\<close>

definition twoTrianglesResult :: GLPKSolveResult where
  "twoTrianglesResult =
     \<lparr>res_status = 5,
      res_vars = [(''x_0_1'', 1), (''x_0_2'', 1), (''x_1_0'', 1), (''x_1_2'', 1),
                  (''x_2_0'', 1), (''x_2_1'', 1), (''x_3_4'', 1), (''x_3_5'', 1),
                  (''x_4_3'', 1), (''x_4_5'', 1), (''x_5_3'', 1), (''x_5_4'', 1)]\<rparr>"

text \<open>A solver that answers two triangles first and reports an unbounded problem afterwards.\<close>

definition unboundedSecond ::
  "nat \<Rightarrow> GLPKProblem \<Rightarrow> GLPKSolverOptions \<Rightarrow> string + GLPKSolveResult" where
  "unboundedSecond k lpProblem options =
     (if k = 0 then Inr twoTrianglesResult else Inr \<lparr>res_status = 6, res_vars = []\<rparr>)"

text \<open>An answer with status infeasible.\<close>

definition infeasibleResult :: GLPKSolveResult where
  "infeasibleResult = \<lparr>res_status = 3, res_vars = []\<rparr>"

text \<open>
  An answer for four people whose matrix is not symmetric: person 0 is next to person 1,
  person 1 is not next to person 0.
\<close>

definition asymmetricResult :: GLPKSolveResult where
  "asymmetricResult =
     \<lparr>res_status = 5,
      res_vars = [(''x_0_1'', 1), (''x_0_3'', 1), (''x_1_2'', 1), (''x_1_3'', 1),
                  (''x_2_1'', 1), (''x_2_3'', 1), (''x_3_0'', 1), (''x_3_2'', 1)]\<rparr>"

definition asymmetricMatrix :: AdjacencyMatrix where
  "asymmetricMatrix = [[0, 1, 0, 1], [0, 0, 1, 1], [0, 1, 0, 1], [1, 0, 1, 0]]"

text \<open>Three rows of lengths 2, 3 and 1: not square, and the entry at row 0, column 2 is missing.\<close>

definition raggedPref :: PreferenceMatrix where
  "raggedPref = [[Some 0, Some 1], [Some 1, Some 0, Some 2], [Some 1]]"



text \<open>Four nodes on the cycle 0, 1, 2, 3.\<close>

definition fourCycle :: AdjacencyMatrix where
  "fourCycle = [[0, 1, 0, 1], [1, 0, 1, 0], [0, 1, 0, 1], [1, 0, 1, 0]]"

section \<open>Properties\<close>

subsection \<open>The names of the variables\<close>

text \<open>
  The interpreter reads back the names the model builder gives: the decimal digits of an
  index parse to the index, a name splits into its three pieces, and two names are equal
  only for the same ordered pair.
\<close>

lemma digit_cases:
  fixes d :: nat
  assumes "d < 10"
  shows "d = 0 \<or> d = 1 \<or> d = 2 \<or> d = 3 \<or> d = 4 \<or> d = 5 \<or> d = 6 \<or> d = 7 \<or> d = 8 \<or> d = 9"
  using assms by presburger

lemma digitChar_props:
  assumes "d < 10"
  shows "digitVal (digitChar d) = int d" and "isDigit (digitChar d)"
    and "\<not> isWhite (digitChar d)" and "digitChar d \<noteq> CHR ''_''"
    and "digitChar d \<noteq> CHR ''-''" and "digitChar d \<noteq> CHR ''+''"
  using digit_cases[OF assms]
  by (auto simp: digitChar_def digitVal_def isDigit_def isWhite_def)

lemma showNat_nonempty: "showNat k \<noteq> []"
  by (subst showNat.simps) simp

lemma showNat_chars:
  "\<forall>ch \<in> set (showNat k). isDigit ch \<and> \<not> isWhite ch \<and> ch \<noteq> CHR ''_'' \<and> ch \<noteq> CHR ''-'' \<and> ch \<noteq> CHR ''+''"
proof (induction k rule: showNat.induct)
  case (1 k)
  show ?case
  proof (cases "k < 10")
    case True
    then show ?thesis
      using digitChar_props[OF True] by (subst showNat.simps) simp
  next
    case False
    have "k mod 10 < 10" by simp
    from digitChar_props[OF this] "1.IH"[OF False] False show ?thesis
      by (subst showNat.simps) auto
  qed
qed

lemma showNat_value: "foldl (\<lambda>a ch. 10 * a + digitVal ch) 0 (showNat k) = int k"
proof (induction k rule: showNat.induct)
  case (1 k)
  show ?case
  proof (cases "k < 10")
    case True
    then show ?thesis
      using digitChar_props(1)[OF True] by (subst showNat.simps) simp
  next
    case False
    have m: "k mod 10 < 10" by simp
    have "foldl (\<lambda>a ch. 10 * a + digitVal ch) 0 (showNat k) =
        10 * foldl (\<lambda>a ch. 10 * a + digitVal ch) 0 (showNat (k div 10)) + digitVal (digitChar (k mod 10))"
      using False by (subst showNat.simps) simp
    also have "\<dots> = 10 * int (k div 10) + int (k mod 10)"
      using "1.IH"[OF False] digitChar_props(1)[OF m] by simp
    also have "\<dots> = int k" by (simp add: zdiv_int zmod_int)
    finally show ?thesis .
  qed
qed

lemma parseInt_showNat: "parseInt (Some (showNat k)) = Some (int k)"
proof -
  note ch = showNat_chars[of k]
  obtain x xs where sx: "showNat k = x # xs"
    using showNat_nonempty[of k] by (cases "showNat k") auto
  have w: "dropWhile isWhite (showNat k) = showNat k"
    using ch sx by simp
  have hdn: "hd (showNat k) \<noteq> CHR ''-''" "hd (showNat k) \<noteq> CHR ''+''"
    using ch sx by auto
  have t: "takeWhile isDigit (showNat k) = showNat k"
    using ch by simp
  show ?thesis
    by (simp add: parseInt_def Let_def w hdn t showNat_nonempty showNat_value
        del: takeWhile_eq_all_conv)
qed

lemma showNat_inj: "showNat a = showNat b \<Longrightarrow> a = b"
proof -
  assume "showNat a = showNat b"
  then have "parseInt (Some (showNat a)) = parseInt (Some (showNat b))" by simp
  then show "a = b" by (simp add: parseInt_showNat)
qed

lemma split_no_sep: "sep \<notin> set xs \<Longrightarrow> split sep xs = [xs]"
  by (induction xs) auto

lemma split_at_sep: "sep \<notin> set xs \<Longrightarrow> split sep (xs @ sep # ys) = xs # split sep ys"
  by (induction xs) auto

lemma split_getVarName:
  "split (CHR ''_'') (getVarName i j) = [''x'', showNat i, showNat j]"
proof -
  have i: "CHR ''_'' \<notin> set (showNat i)" and j: "CHR ''_'' \<notin> set (showNat j)"
    using showNat_chars by blast+
  have "split (CHR ''_'') (getVarName i j) =
      ''x'' # split (CHR ''_'') (showNat i @ CHR ''_'' # showNat j)"
    by (simp add: getVarName_def)
  also have "\<dots> = ''x'' # showNat i # split (CHR ''_'') (showNat j)"
    using i by (simp add: split_at_sep)
  also have "\<dots> = [''x'', showNat i, showNat j]"
    using j by (simp add: split_no_sep)
  finally show ?thesis .
qed

lemma getVarName_inj: "getVarName i j = getVarName i' j' \<Longrightarrow> i = i' \<and> j = j'"
proof -
  assume "getVarName i j = getVarName i' j'"
  then have "split (CHR ''_'') (getVarName i j) = split (CHR ''_'') (getVarName i' j')" by simp
  then have "showNat i = showNat i'" "showNat j = showNat j'"
    by (simp_all add: split_getVarName)
  then show ?thesis by (simp add: showNat_inj)
qed

lemma setVar_getVarName:
  assumes "i < n" and "j < n"
  shows "setVar n varMatrix (getVarName i j, v) =
           varMatrix[i := (varMatrix ! i)[j := mathRound v]]"
proof -
  have "take 2 (getVarName i j) = ''x_''" by (simp add: getVarName_def)
  then show ?thesis
    using assms by (simp add: setVar_def split_getVarName partAt_def parseInt_showNat Let_def)
qed


lemma distinct_concat_map:
  assumes "distinct xs" and "\<And>x. x \<in> set xs \<Longrightarrow> distinct (f x)"
    and "\<And>x y. x \<in> set xs \<Longrightarrow> y \<in> set xs \<Longrightarrow> x \<noteq> y \<Longrightarrow> set (f x) \<inter> set (f y) = {}"
  shows "distinct (concat (map f xs))"
  using assms
proof (induction xs)
  case Nil
  then show ?case by simp
next
  case (Cons a xs)
  have "distinct (concat (map f xs))"
    using Cons.prems by (intro Cons.IH) auto
  moreover have "distinct (f a)" using Cons.prems(2) by simp
  moreover have "set (f a) \<inter> set (concat (map f xs)) = {}"
  proof -
    have "set (f a) \<inter> set (f y) = {}" if "y \<in> set xs" for y
      using Cons.prems(1) Cons.prems(3)[of a y] that by auto
    then show ?thesis by auto
  qed
  ultimately show ?case by simp
qed

lemma pair_names_distinct:
  assumes "distinct S"
  shows "distinct (concat (map (\<lambda>i. map (\<lambda>j. getVarName i j) (filter (P i) S)) S))"
proof (rule distinct_concat_map[OF assms])
  fix i assume "i \<in> set S"
  have "inj_on (\<lambda>j. getVarName i j) (set (filter (P i) S))"
    using getVarName_inj by (auto simp: inj_on_def)
  then show "distinct (map (\<lambda>j. getVarName i j) (filter (P i) S))"
    using assms by (simp add: distinct_map)
next
  fix i i' assume "i \<in> set S" "i' \<in> set S" "i \<noteq> i'"
  then show "set (map (\<lambda>j. getVarName i j) (filter (P i) S)) \<inter>
             set (map (\<lambda>j. getVarName i' j) (filter (P i') S)) = {}"
    using getVarName_inj by fastforce
qed

lemma subtourConstraint_names_distinct:
  assumes "distinct S"
  shows "distinct (map var_name (con_vars (subtourConstraint glpk iter S)))"
proof -
  have "map var_name (con_vars (subtourConstraint glpk iter S)) =
      concat (map (\<lambda>i. map (\<lambda>j. getVarName i j) (filter (\<lambda>j. i < j) S)) S)"
    by (simp add: subtourConstraint_def map_concat comp_def)
  then show ?thesis using pair_names_distinct[OF assms, of "\<lambda>i j. i < j"] by simp
qed


subsection \<open>The trivial sizes\<close>

text \<open>
  Claim C9. With \<open>n = 0\<close> \<^verbatim>\<open>solveSitting\<close> returns the empty matrix, with \<open>n = 1\<close> it returns
  \<open>[[0]]\<close> and with \<open>n = 2\<close> it returns \<open>[[0, 1], [1, 0]]\<close>; in all three cases no problem is
  submitted to the solver, whatever the preference values and the solver are.
\<close>

theorem solveSitting_trivial_sizes:
  "(length pref = 0 \<longrightarrow> solveSitting glpk pref = ([], Inr [])) \<and>
   (length pref = 1 \<longrightarrow> solveSitting glpk pref = ([], Inr [[0]])) \<and>
   (length pref = 2 \<longrightarrow> solveSitting glpk pref = ([], Inr [[0, 1], [1, 0]]))"
  by (simp add: solveSitting_def)

theorem solveSitting_trivial_sizes_witness:
  "solveSitting (glpkStd (constantSolver triangleResult)) [] = ([], Inr []) \<and>
   solveSitting (glpkStd (constantSolver triangleResult)) [[Some 7]] = ([], Inr [[0]]) \<and>
   solveSitting (glpkStd (constantSolver triangleResult)) [[Some 0, Some (- 3)], [None, Some 5]] =
     ([], Inr [[0, 1], [1, 0]])"
  using solveSitting_trivial_sizes[of "[]" "glpkStd (constantSolver triangleResult)"]
    solveSitting_trivial_sizes[of "[[Some 7]]" "glpkStd (constantSolver triangleResult)"]
    solveSitting_trivial_sizes[of "[[Some 0, Some (- 3)], [None, Some 5]]"
      "glpkStd (constantSolver triangleResult)"]
  by simp

subsection \<open>The base model\<close>

lemma solveSitting_ge3:
  "3 \<le> length pref \<Longrightarrow> solveSitting glpk pref = solveLoop glpk pref 0 [] []"
  by (auto simp: solveSitting_def Let_def)

lemma solveLoop_first_call:
  "iter < MAX_SUBTOUR_ITERATIONS (length pref) \<Longrightarrow>
   \<exists>rest. fst (solveLoop glpk pref iter cs submitted) =
      submitted @ lpProblemForIter (baseLpProblem glpk pref) cs # rest"
proof (induction glpk pref iter cs submitted rule: solveLoop.induct)
  case (1 glpk pref iter cs submitted)
  let ?p = "lpProblemForIter (baseLpProblem glpk pref) cs"
  show ?case
  proof (cases "iteration glpk (length pref) iter cs ?p")
    case (Return vm)
    with "1.prems" show ?thesis by (simp add: solveLoop.simps[of glpk pref iter] Let_def)
  next
    case (Throw e)
    with "1.prems" show ?thesis by (simp add: solveLoop.simps[of glpk pref iter] Let_def)
  next
    case (Continue cs1)
    show ?thesis
    proof (cases "iter + 1 < MAX_SUBTOUR_ITERATIONS (length pref)")
      case True
      from "1.IH"[OF "1.prems" refl Continue True] Continue "1.prems" show ?thesis
        by (auto simp: solveLoop.simps[of glpk pref iter] Let_def)
    next
      case False
      with Continue "1.prems" show ?thesis
        by (simp add: solveLoop.simps[of glpk pref iter] solveLoop.simps[of glpk pref "Suc iter"] Let_def)
    qed
  qed
qed














subsection \<open>Preference matrices with missing entries\<close>

text \<open>
  Claim C10, as stated, fails: a preference matrix with three rows of lengths 2, 3 and 1 is
  not square and misses the entry at row 0, column 2, yet one problem is submitted to the
  solver and the answer is returned as the seating.
\<close>

theorem ragged_preferences_reach_solver:
  "\<not> prefIsSquare raggedPref \<and> prefAt raggedPref 0 2 = None \<and>
   length (fst (solveSitting (glpkStd (constantSolver triangleResult)) raggedPref)) = 1 \<and>
   snd (solveSitting (glpkStd (constantSolver triangleResult)) raggedPref) =
     Inr [[0, 1, 1], [1, 0, 1], [1, 1, 0]]"
  by code_simp

lemma objectiveVars_mem:
  "i < n \<Longrightarrow> j < n \<Longrightarrow> i \<noteq> j \<Longrightarrow>
   \<lparr>var_name = getVarName i j,
    var_coef = (case prefAt pref i j of Some v \<Rightarrow> v + EPSILON | None \<Rightarrow> EPSILON)\<rparr>
     \<in> set (objectiveVars pref n)"
  by (auto simp: objectiveVars_def indices_def)

text \<open>
  Claim C10, amended. For \<open>n \<ge> 3\<close>, an entry \<open>pref[i][j]\<close> off the diagonal that is missing or
  is not a number is not rejected: the model builder gives \<open>x_i_j\<close> the objective coefficient
  0.001 alone, and the solver is called with the model built so.
\<close>

theorem missing_preference_not_rejected:
  assumes "3 \<le> length pref" and "i < length pref" and "j < length pref" and "i \<noteq> j"
    and "prefAt pref i j = None"
  shows "\<lparr>var_name = getVarName i j, var_coef = 1 / 1000\<rparr>
           \<in> set (obj_vars (prob_objective (baseLpProblem glpk pref))) \<and>
         (\<exists>rest. fst (solveSitting glpk pref) =
                   lpProblemForIter (baseLpProblem glpk pref) [] # rest)"
proof -
  have "\<lparr>var_name = getVarName i j, var_coef = 1 / 1000\<rparr>
           \<in> set (obj_vars (prob_objective (baseLpProblem glpk pref)))"
    using objectiveVars_mem[OF assms(2,3,4), of pref] assms(5)
    by (simp add: baseLpProblem_def Let_def EPSILON_def)
  moreover have "\<exists>rest. fst (solveSitting glpk pref) =
                   lpProblemForIter (baseLpProblem glpk pref) [] # rest"
  proof -
    have "0 < MAX_SUBTOUR_ITERATIONS (length pref)"
      using assms(1) by (auto simp: MAX_SUBTOUR_ITERATIONS_def)
    from solveLoop_first_call[OF this, of glpk "[]" "[]"] show ?thesis
      unfolding solveSitting_ge3[OF assms(1)] by simp
  qed
  ultimately show ?thesis by blast
qed

theorem missing_preference_not_rejected_witness:
  "3 \<le> length raggedPref \<and> (0::nat) < length raggedPref \<and> (2::nat) < length raggedPref \<and>
   (0::nat) \<noteq> 2 \<and> prefAt raggedPref 0 2 = None \<and>
   \<lparr>var_name = getVarName 0 2, var_coef = 1 / 1000\<rparr>
     \<in> set (obj_vars (prob_objective
              (baseLpProblem (glpkStd (constantSolver triangleResult)) raggedPref)))"
proof -
  have h1: "3 \<le> length raggedPref" by (simp add: raggedPref_def)
  have h2: "(0::nat) < length raggedPref" by (simp add: raggedPref_def)
  have h3: "(2::nat) < length raggedPref" by (simp add: raggedPref_def)
  have h4: "(0::nat) \<noteq> 2" by simp
  have h5: "prefAt raggedPref 0 2 = None" by (simp add: raggedPref_def prefAt_def)
  from missing_preference_not_rejected[OF h1 h2 h3 h4 h5,
      of "glpkStd (constantSolver triangleResult)"]
  have "\<lparr>var_name = getVarName 0 2, var_coef = 1 / 1000\<rparr>
     \<in> set (obj_vars (prob_objective
              (baseLpProblem (glpkStd (constantSolver triangleResult)) raggedPref)))"
    by (rule conjunct1)
  with h1 h2 h3 h4 h5 show ?thesis by (intro conjI)
qed

subsection \<open>The subtour detector\<close>


lemma chooseMove_Goto_degree:
  assumes "3 \<le> length adjMatrix"
    and "chooseMove (length adjMatrix) (getNeighbors adjMatrix v) prev = Goto k"
  shows "length (neighborsOf adjMatrix v) = 2"
  using assms by (auto simp: chooseMove_def getNeighbors_def Let_def split: if_splits)

lemma chooseMove_not_Stop:
  "3 \<le> n \<Longrightarrow> chooseMove n neighbors prev \<noteq> Stop"
  by (auto simp: chooseMove_def)

lemma traceCycle_inv:
  assumes "traceCycle adj i visited cyc cur prev = (visited', cyc')"
    and "set cyc \<subseteq> {v. visited v}" and "distinct cyc" and "cur < length adj"
    and "\<forall>v\<in>set cyc. v < length adj"
  shows "distinct cyc' \<and> set cyc' \<subseteq> {v. visited' v} \<and> (\<forall>v. visited v \<longrightarrow> visited' v) \<and>
         (\<forall>v\<in>set cyc'. v < length adj) \<and> set cyc' \<subseteq> set cyc \<union> {v. \<not> visited v}"
  using assms
proof (induction adj i visited cyc cur prev arbitrary: visited' cyc' rule: traceCycle.induct)
  case (1 adj i visited cyc cur prev)
  show ?case
  proof (cases "visited cur")
    case True
    with "1.prems" show ?thesis
      by (auto simp: traceCycle.simps[of adj i visited])
  next
    case False
    let ?v1 = "visited(cur := True)"
    let ?c1 = "cyc @ [cur]"
    have notin: "cur \<notin> set cyc" using False "1.prems"(2) by auto
    have d1: "distinct ?c1" using notin "1.prems"(3) by simp
    have s1: "set ?c1 \<subseteq> {v. ?v1 v}" using "1.prems"(2) by auto
    have r1: "\<forall>v\<in>set ?c1. v < length adj" using "1.prems"(4,5) by auto
    show ?thesis
    proof (cases "chooseMove (length adj) (getNeighbors adj cur) prev")
      case Stop
      with False "1.prems"(1) have "visited' = ?v1" "cyc' = ?c1"
        by (simp_all add: traceCycle.simps[of adj i visited] Let_def)
      with d1 s1 r1 False show ?thesis by auto
    next
      case Invalidate
      with False "1.prems"(1) have "visited' = ?v1" "cyc' = []"
        by (simp_all add: traceCycle.simps[of adj i visited] Let_def)
      then show ?thesis by auto
    next
      case (Goto nextNode)
      have nlt: "nextNode < length adj" using Goto by (rule chooseMove_Goto_less)
      show ?thesis
      proof (cases "?v1 nextNode")
        case True
        with Goto False "1.prems"(1) have "visited' = ?v1" "cyc' = ?c1 \<or> cyc' = []"
          by (auto simp: traceCycle.simps[of adj i visited] Let_def split: if_splits)
        with d1 s1 r1 False show ?thesis by auto
      next
        case nv: False
        with Goto False "1.prems"(1)
        have rec: "traceCycle adj i ?v1 ?c1 nextNode (int cur) = (visited', cyc')"
          by (simp add: traceCycle.simps[of adj i visited] Let_def)
        from "1.IH"[OF False refl refl Goto nv rec s1 d1 nlt r1]
        have ih: "distinct cyc' \<and> set cyc' \<subseteq> {v. visited' v} \<and> (\<forall>v. ?v1 v \<longrightarrow> visited' v) \<and>
           (\<forall>v\<in>set cyc'. v < length adj) \<and> set cyc' \<subseteq> set ?c1 \<union> {v. \<not> ?v1 v}" .
        have sub: "set ?c1 \<union> {v. \<not> ?v1 v} \<subseteq> set cyc \<union> {v. \<not> visited v}"
          using False by auto
        have mono: "\<forall>v. visited v \<longrightarrow> visited' v"
          using ih by auto
        from ih sub mono show ?thesis by blast
      qed
    qed
  qed
qed

lemma traceCycle_degree:
  assumes "3 \<le> length adj"
    and "traceCycle adj i visited cyc cur prev = (visited', cyc')"
    and "\<forall>v\<in>set cyc. length (neighborsOf adj v) = 2"
  shows "\<forall>v\<in>set cyc'. length (neighborsOf adj v) = 2"
  using assms
proof (induction adj i visited cyc cur prev arbitrary: visited' cyc' rule: traceCycle.induct)
  case (1 adj i visited cyc cur prev)
  show ?case
  proof (cases "visited cur")
    case True
    with "1.prems" show ?thesis
      by (auto simp: traceCycle.simps[of adj i visited])
  next
    case False
    let ?v1 = "visited(cur := True)"
    let ?c1 = "cyc @ [cur]"
    show ?thesis
    proof (cases "chooseMove (length adj) (getNeighbors adj cur) prev")
      case Stop
      with chooseMove_not_Stop[OF "1.prems"(1)] show ?thesis by simp
    next
      case Invalidate
      with False "1.prems"(2) have "cyc' = []"
        by (simp_all add: traceCycle.simps[of adj i visited] Let_def)
      then show ?thesis by simp
    next
      case (Goto nextNode)
      have deg: "length (neighborsOf adj cur) = 2"
        using "1.prems"(1) Goto by (rule chooseMove_Goto_degree)
      have c1: "\<forall>v\<in>set ?c1. length (neighborsOf adj v) = 2"
        using deg "1.prems"(3) by auto
      show ?thesis
      proof (cases "?v1 nextNode")
        case True
        with Goto False "1.prems"(2) have "cyc' = ?c1 \<or> cyc' = []"
          by (auto simp: traceCycle.simps[of adj i visited] Let_def split: if_splits)
        with c1 show ?thesis by auto
      next
        case nv: False
        with Goto False "1.prems"(2)
        have rec: "traceCycle adj i ?v1 ?c1 nextNode (int cur) = (visited', cyc')"
          by (simp add: traceCycle.simps[of adj i visited] Let_def)
        from "1.IH"[OF False refl refl Goto nv "1.prems"(1) rec c1] show ?thesis .
      qed
    qed
  qed
qed

lemma visitStart_inv:
  assumes "detectorInv adj st" and "i < length adj"
  shows "detectorInv adj (visitStart adj st i)"
proof -
  obtain visited subtours where st: "st = (visited, subtours)" by (cases st)
  show ?thesis
  proof (cases "visited i")
    case True
    with assms(1) st show ?thesis by (simp add: visitStart_def)
  next
    case False
    obtain v1 cyc where tr: "traceCycle adj i visited [] i (- 1) = (v1, cyc)"
      by (cases "traceCycle adj i visited [] i (- 1)")
    from traceCycle_inv[OF tr] assms(2)
    have inv: "distinct cyc" "set cyc \<subseteq> {v. v1 v}" "\<forall>v. visited v \<longrightarrow> v1 v"
      "\<forall>v\<in>set cyc. v < length adj" "set cyc \<subseteq> {v. \<not> visited v}"
      by auto
    have deg: "3 \<le> length adj \<Longrightarrow> \<forall>v\<in>set cyc. length (neighborsOf adj v) = 2"
      using traceCycle_degree[OF _ tr] by simp
    from assms(1) st have old: "[] \<notin> set subtours" "distinct (concat subtours)"
      "set (concat subtours) \<subseteq> {v. visited v}" "\<forall>v \<in> set (concat subtours). v < length adj"
      "3 \<le> length adj \<longrightarrow> (\<forall>v \<in> set (concat subtours). length (neighborsOf adj v) = 2)"
      by (simp_all add: detectorInv_def)
    have disj: "set (concat subtours) \<inter> set cyc = {}"
      using old(3) inv(5) by auto
    have sub1: "set (concat subtours) \<subseteq> {v. v1 v}"
      using old(3) inv(3) by auto
    show ?thesis
    proof (cases "cyc = []")
      case True
      have "visitStart adj st i = (v1, subtours) \<or> visitStart adj st i = (v1(i := True), subtours)"
        using st False tr True by (simp add: visitStart_def)
      moreover have "detectorInv adj (v1, subtours)"
        using old sub1 by (simp add: detectorInv_def)
      moreover have "detectorInv adj (v1(i := True), subtours)"
        using old sub1 by (auto simp: detectorInv_def)
      ultimately show ?thesis by auto
    next
      case ne: False
      have vs: "visitStart adj st i = (v1, subtours @ [cyc])"
        using st False tr ne by (simp add: visitStart_def)
      have "detectorInv adj (v1, subtours @ [cyc])"
        unfolding detectorInv_def using old inv(1,2,4) deg disj sub1 ne
        by (auto simp: disjoint_iff)
      with vs show ?thesis by simp
    qed
  qed
qed

lemma foldl_visitStart_inv:
  "detectorInv adj st \<Longrightarrow> \<forall>i \<in> set xs. i < length adj
     \<Longrightarrow> detectorInv adj (foldl (visitStart adj) st xs)"
proof (induction xs arbitrary: st)
  case Nil
  then show ?case by simp
next
  case (Cons x xs)
  from Cons.prems have "detectorInv adj (visitStart adj st x)"
    by (intro visitStart_inv) simp_all
  with Cons.IH[of "visitStart adj st x"] Cons.prems(2) show ?case by simp
qed

lemma findSubtours_inv:
  "[] \<notin> set (findSubtours adj) \<and> distinct (concat (findSubtours adj)) \<and>
   (\<forall>v \<in> set (concat (findSubtours adj)). v < length adj) \<and>
   (3 \<le> length adj \<longrightarrow>
      (\<forall>v \<in> set (concat (findSubtours adj)). length (neighborsOf adj v) = 2))"
proof (cases "length adj = 0")
  case True
  then show ?thesis by (simp add: findSubtours_def)
next
  case False
  have "detectorInv adj (\<lambda>k. False, [])" by (simp add: detectorInv_def)
  then have "detectorInv adj (foldl (visitStart adj) (\<lambda>k. False, []) [0..<length adj])"
    by (rule foldl_visitStart_inv) simp
  then show ?thesis
    using False by (simp add: findSubtours_def detectorInv_def Let_def split: prod.splits)
qed

lemma length_less_concat:
  "[] \<notin> set xs \<Longrightarrow> length xs > 1 \<Longrightarrow> S \<in> set xs \<Longrightarrow> length S < length (concat xs)"
proof -
  assume ne: "[] \<notin> set xs" and len: "length xs > 1" and mem: "S \<in> set xs"
  from mem obtain ys zs where xs: "xs = ys @ S # zs" by (auto simp: in_set_conv_decomp)
  have tot: "length (concat xs) = length (concat ys) + length S + length (concat zs)"
    using xs by simp
  from len xs have "ys \<noteq> [] \<or> zs \<noteq> []" by auto
  then show ?thesis
  proof
    assume "ys \<noteq> []"
    then obtain T ys' where ys: "ys = T # ys'" by (cases ys) auto
    with ne xs have "T \<noteq> []" by auto
    then have "0 < length (concat ys)" using ys by simp
    with tot show ?thesis by linarith
  next
    assume "zs \<noteq> []"
    then obtain T zs' where zs: "zs = T # zs'" by (cases zs) auto
    with ne xs have "T \<noteq> []" by auto
    then have "0 < length (concat zs)" using zs by simp
    with tot show ?thesis by linarith
  qed
qed

lemma findSubtours_cycle_length:
  assumes "length (findSubtours adj) > 1" and "S \<in> set (findSubtours adj)"
  shows "0 < length S \<and> length S < length adj"
proof -
  note inv = findSubtours_inv[of adj]
  from inv assms(2) have "S \<noteq> []" by auto
  moreover have "length S < length (concat (findSubtours adj))"
    using length_less_concat[OF _ assms] inv by simp
  moreover have "length (concat (findSubtours adj)) \<le> length adj"
  proof -
    have d: "distinct (concat (findSubtours adj))" using inv by blast
    have "length (concat (findSubtours adj)) = card (set (concat (findSubtours adj)))"
      by (rule distinct_card[OF d, symmetric])
    also have "\<dots> \<le> card {0..<length adj}"
      using inv by (intro card_mono) auto
    finally show ?thesis by simp
  qed
  ultimately show ?thesis by simp
qed




subsection \<open>Successful results\<close>

lemma afterSubtours_Return:
  "afterSubtours glpk n iter cs varMatrix subtours = Return m
     \<Longrightarrow> m = varMatrix \<and> length subtours = 1 \<and> length (subtours ! 0) = n"
  by (auto simp: afterSubtours_def split: if_splits prod.splits)

lemma afterSolve_Return:
  "afterSolve glpk n iter cs result = Return m
     \<Longrightarrow> length (findSubtours m) = 1 \<and> length (findSubtours m ! 0) = n"
  by (auto simp: afterSolve_def Let_def split: if_splits dest: afterSubtours_Return)

lemma iteration_Return:
  "iteration glpk n iter cs p = Return m
     \<Longrightarrow> length (findSubtours m) = 1 \<and> length (findSubtours m ! 0) = n"
  by (auto simp: iteration_def split: sum.splits dest: afterSolve_Return)

lemma solveLoop_Inr:
  "snd (solveLoop glpk pref iter cs submitted) = Inr m
     \<Longrightarrow> length (findSubtours m) = 1 \<and> length (findSubtours m ! 0) = length pref"
proof (induction glpk pref iter cs submitted rule: solveLoop.induct)
  case (1 glpk pref iter cs submitted)
  show ?case
  proof (cases "iter < MAX_SUBTOUR_ITERATIONS (length pref)")
    case False
    with "1.prems" show ?thesis by (simp add: solveLoop.simps)
  next
    case True
    let ?p = "lpProblemForIter (baseLpProblem glpk pref) cs"
    show ?thesis
    proof (cases "iteration glpk (length pref) iter cs ?p")
      case (Return vm)
      with True "1.prems" have "vm = m" by (simp add: solveLoop.simps Let_def)
      with Return show ?thesis using iteration_Return by blast
    next
      case (Throw e)
      with True "1.prems" show ?thesis by (simp add: solveLoop.simps Let_def)
    next
      case (Continue cs1)
      with True "1.prems"
      have "snd (solveLoop glpk pref (iter + 1) cs1 (submitted @ [?p])) = Inr m"
        by (simp add: solveLoop.simps Let_def)
      with "1.IH"[OF True refl Continue] show ?thesis by simp
    qed
  qed
qed

text \<open>
  Claim C1. For a preference matrix with \<open>n \<ge> 3\<close> rows, whenever \<^verbatim>\<open>solveSitting\<close> returns a
  matrix, \<^verbatim>\<open>findSubtours\<close> applied to that matrix yields exactly one cycle, and the
  length of the cycle is \<open>n\<close>.
\<close>

theorem solveSitting_success_single_cycle:
  assumes "3 \<le> length pref" and "snd (solveSitting glpk pref) = Inr varMatrix"
  shows "\<exists>c. findSubtours varMatrix = [c] \<and> length c = length pref"
proof -
  from assms have "snd (solveLoop glpk pref 0 [] []) = Inr varMatrix"
    by (simp add: solveSitting_ge3)
  then have "length (findSubtours varMatrix) = 1 \<and>
             length (findSubtours varMatrix ! 0) = length pref"
    by (rule solveLoop_Inr)
  then show ?thesis
    by (cases "findSubtours varMatrix") auto
qed

theorem solveSitting_success_single_cycle_witness:
  "3 \<le> length (zeroPref 3) \<and>
   snd (solveSitting (glpkStd (constantSolver triangleResult)) (zeroPref 3)) =
     Inr [[0, 1, 1], [1, 0, 1], [1, 1, 0]] \<and>
   (\<exists>c. findSubtours [[0, 1, 1], [1, 0, 1], [1, 1, 0]] = [c] \<and> length c = length (zeroPref 3))"
proof -
  have h1: "3 \<le> length (zeroPref 3)"
    by code_simp
  have h2: "snd (solveSitting (glpkStd (constantSolver triangleResult)) (zeroPref 3)) =
              Inr [[0, 1, 1], [1, 0, 1], [1, 1, 0]]"
    by code_simp
  from solveSitting_success_single_cycle[OF h1 h2] h1 h2 show ?thesis
    by (intro conjI)
qed

subsection \<open>The elimination constraints\<close>

lemma addSubtourConstraints_eq:
  "addSubtourConstraints glpk n iter subtours (cs, k) =
     (cs @ map (subtourConstraint glpk iter) (filter (\<lambda>S. 0 < length S \<and> length S < n) subtours),
      k + length (filter (\<lambda>S. 0 < length S \<and> length S < n) subtours))"
proof (induction subtours arbitrary: cs k)
  case Nil
  then show ?case by simp
next
  case (Cons S rest)
  show ?case
  proof (cases "length S < n \<and> length S > 0")
    case True
    then show ?thesis using Cons.IH[of "cs @ [subtourConstraint glpk iter S]" "k + 1"] by simp
  next
    case False
    then show ?thesis using Cons.IH[of cs k] by auto
  qed
qed

lemma subtourConstraint_vars:
  "set (con_vars (subtourConstraint glpk iter S)) =
     {\<lparr>var_name = getVarName i j, var_coef = 1\<rparr> | i j. i \<in> set S \<and> j \<in> set S \<and> i < j}"
  by (auto simp: subtourConstraint_def)

lemma subtourConstraint_bnds:
  "con_bnds (subtourConstraint glpk iter S) =
     \<lparr>bnd_type = GLP_UP glpk, bnd_ub = real (length S) - 1, bnd_lb = 0\<rparr>"
  by (simp add: subtourConstraint_def)

lemma setVar_length: "length (setVar n varMatrix entry) = length varMatrix"
proof (cases entry)
  case (Pair varName v)
  show ?thesis
  proof (cases "parseInt (partAt (split (CHR ''_'') varName) 1)")
    case None
    with Pair show ?thesis by (simp add: setVar_def Let_def)
  next
    case i: (Some i')
    show ?thesis
    proof (cases "parseInt (partAt (split (CHR ''_'') varName) 2)")
      case None
      with Pair i show ?thesis by (simp add: setVar_def Let_def)
    next
      case (Some j')
      with Pair i show ?thesis by (simp add: setVar_def Let_def)
    qed
  qed
qed

lemma buildVarMatrix_length: "length (buildVarMatrix n vars) = n"
proof -
  have "length (foldl (setVar n) M vars) = length M" for M
    by (induction vars arbitrary: M) (simp_all add: setVar_length)
  then show ?thesis by (simp add: buildVarMatrix_def)
qed

text \<open>
  Claim C3. In an iteration whose result matrix has more than one subtour, every detected
  cycle \<open>S\<close> has \<open>0 < |S| < n\<close>, and the iteration goes on with the constraints it started
  with followed by exactly one elimination constraint for each detected cycle with
  \<open>0 < |S| < n\<close>, in the order of detection (so none for a cycle of length \<open>n\<close>). The
  variables of the constraint for \<open>S\<close> are the \<open>x_i_j\<close> with \<open>i\<close> and \<open>j\<close> in \<open>S\<close> and \<open>i < j\<close>,
  each once and with coefficient 1, and its bound is the upper bound \<open>|S| - 1\<close>.
\<close>

theorem subtour_elimination_constraints:
  assumes "solve glpk iter lpProblem (solverOptions glpk) = Inr result"
    and "res_status result = GLP_OPT glpk \<or> res_status result = GLP_FEAS glpk"
    and "subtours = findSubtours (buildVarMatrix n (res_vars result))"
    and "length subtours > 1"
  shows "iteration glpk n iter cs lpProblem =
           Continue (cs @ map (subtourConstraint glpk iter)
                              (filter (\<lambda>S. 0 < length S \<and> length S < n) subtours)) \<and>
    (\<forall>S \<in> set subtours. 0 < length S \<and> length S < n) \<and>
    (\<forall>S \<in> set subtours. distinct (map var_name (con_vars (subtourConstraint glpk iter S)))) \<and>
    (\<forall>S. set (con_vars (subtourConstraint glpk iter S)) =
            {\<lparr>var_name = getVarName i j, var_coef = 1\<rparr> | i j.
               i \<in> set S \<and> j \<in> set S \<and> i < j} \<and>
          con_bnds (subtourConstraint glpk iter S) =
            \<lparr>bnd_type = GLP_UP glpk, bnd_ub = real (length S) - 1, bnd_lb = 0\<rparr>)"
proof -
  let ?vm = "buildVarMatrix n (res_vars result)"
  let ?ok = "\<lambda>S. 0 < length S \<and> length S < n"
  have all: "\<forall>S \<in> set subtours. 0 < length S \<and> length S < n"
    using findSubtours_cycle_length[of ?vm] assms(3,4) by (simp add: buildVarMatrix_length)
  then have flt: "filter ?ok subtours = subtours" by simp
  have added: "addSubtourConstraints glpk n iter subtours (cs, 0) =
      (cs @ map (subtourConstraint glpk iter) (filter ?ok subtours), length subtours)"
    using addSubtourConstraints_eq[of glpk n iter subtours cs 0] flt by simp
  have "afterSubtours glpk n iter cs ?vm subtours =
      Continue (cs @ map (subtourConstraint glpk iter) (filter ?ok subtours))"
    using assms(4) added by (simp add: afterSubtours_def)
  moreover have "afterSolve glpk n iter cs result = afterSubtours glpk n iter cs ?vm subtours"
    using assms(2,3) by (auto simp: afterSolve_def Let_def)
  moreover have "iteration glpk n iter cs lpProblem = afterSolve glpk n iter cs result"
    using assms(1) by (simp add: iteration_def)
  ultimately have it: "iteration glpk n iter cs lpProblem =
      Continue (cs @ map (subtourConstraint glpk iter) (filter ?ok subtours))"
    by simp
  have form: "\<forall>S. set (con_vars (subtourConstraint glpk iter S)) =
            {\<lparr>var_name = getVarName i j, var_coef = 1\<rparr> | i j.
               i \<in> set S \<and> j \<in> set S \<and> i < j} \<and>
          con_bnds (subtourConstraint glpk iter S) =
            \<lparr>bnd_type = GLP_UP glpk, bnd_ub = real (length S) - 1, bnd_lb = 0\<rparr>"
  proof (intro allI conjI)
    fix S
    show "set (con_vars (subtourConstraint glpk iter S)) =
            {\<lparr>var_name = getVarName i j, var_coef = 1\<rparr> | i j.
               i \<in> set S \<and> j \<in> set S \<and> i < j}"
      by (rule subtourConstraint_vars)
    show "con_bnds (subtourConstraint glpk iter S) =
            \<lparr>bnd_type = GLP_UP glpk, bnd_ub = real (length S) - 1, bnd_lb = 0\<rparr>"
      by (rule subtourConstraint_bnds)
  qed
  have dis: "\<forall>S \<in> set subtours.
      distinct (map var_name (con_vars (subtourConstraint glpk iter S)))"
  proof
    fix S assume "S \<in> set subtours"
    moreover have "distinct (concat subtours)"
      using findSubtours_inv[of ?vm] assms(3) by simp
    ultimately have "distinct S" by (auto simp: distinct_concat_iff)
    then show "distinct (map var_name (con_vars (subtourConstraint glpk iter S)))"
      by (rule subtourConstraint_names_distinct)
  qed
  from it all dis form show ?thesis by (intro conjI)
qed

theorem subtour_elimination_constraints_witness:
  "solve (glpkStd (constantSolver twoTrianglesResult)) 0
     (baseLpProblem (glpkStd (constantSolver twoTrianglesResult)) (zeroPref 6))
     (solverOptions (glpkStd (constantSolver twoTrianglesResult))) = Inr twoTrianglesResult \<and>
   res_status twoTrianglesResult = GLP_OPT (glpkStd (constantSolver twoTrianglesResult)) \<and>
   [[0, 1, 2], [3, 4, 5]] = findSubtours (buildVarMatrix 6 (res_vars twoTrianglesResult)) \<and>
   length [[0, 1, 2], [3, 4, 5 :: nat]] > 1 \<and>
   iteration (glpkStd (constantSolver twoTrianglesResult)) 6 0 []
     (baseLpProblem (glpkStd (constantSolver twoTrianglesResult)) (zeroPref 6)) =
     Continue [subtourConstraint (glpkStd (constantSolver twoTrianglesResult)) 0 [0, 1, 2],
               subtourConstraint (glpkStd (constantSolver twoTrianglesResult)) 0 [3, 4, 5]]"
proof -
  let ?g = "glpkStd (constantSolver twoTrianglesResult)"
  have h1: "solve ?g 0 (baseLpProblem ?g (zeroPref 6)) (solverOptions ?g) = Inr twoTrianglesResult"
    by (simp add: glpkStd_def constantSolver_def)
  have h2: "res_status twoTrianglesResult = GLP_OPT ?g"
    by (simp add: glpkStd_def twoTrianglesResult_def)
  have h2': "res_status twoTrianglesResult = GLP_OPT ?g \<or> res_status twoTrianglesResult = GLP_FEAS ?g"
    using h2 by simp
  have h3: "[[0, 1, 2], [3, 4, 5]] = findSubtours (buildVarMatrix 6 (res_vars twoTrianglesResult))"
    by code_simp
  have h4: "length [[0, 1, 2], [3, 4, 5 :: nat]] > 1"
    by simp
  from subtour_elimination_constraints[OF h1 h2' h3 h4, of "[]", THEN conjunct1]
  have "iteration ?g 6 0 [] (baseLpProblem ?g (zeroPref 6)) =
     Continue [subtourConstraint ?g 0 [0, 1, 2], subtourConstraint ?g 0 [3, 4, 5]]"
    by simp
  with h1 h2 h3 h4 show ?thesis by (intro conjI)
qed

subsection \<open>The iteration budget\<close>








subsection \<open>Rejection by the solver\<close>

lemma message_rejections_distinct:
  "message (NoSingleCycle j t) \<noteq> message (SolverFailed t' s)"
  by simp

lemma solveLoop_rejected:
  assumes "iter < MAX_SUBTOUR_ITERATIONS (length pref)"
    and "solve glpk iter (lpProblemForIter (baseLpProblem glpk pref) cs) (solverOptions glpk)
           = Inr result"
    and "res_status result \<noteq> GLP_OPT glpk" and "res_status result \<noteq> GLP_FEAS glpk"
  shows "snd (solveLoop glpk pref iter cs submitted) =
           Inl (if iter > 0 \<and> (res_status result = GLP_INFEAS glpk \<or>
                                 res_status result = GLP_NOFEAS glpk)
                then NoSingleCycle (iter + 1) (statusText glpk (res_status result))
                else SolverFailed (statusText glpk (res_status result)) (res_status result))"
  using assms
  by (simp add: solveLoop.simps[of glpk pref iter] iteration_def afterSolve_def Let_def)

text \<open>
  Claim C5, as stated, fails: on a later iteration a status that is neither optimal nor
  feasible leads to the failure "no single-cycle solution" only when it is infeasible or
  no-feasible-solution. Here the solver answers two triangles for six people and then
  reports an unbounded problem; the second call ends with the generic failure of the
  first iteration.
\<close>

theorem later_unbounded_is_generic_failure:
  "snd (solveSitting (glpkStd unboundedSecond) (zeroPref 6)) =
     Inl (SolverFailed ''Unbounded'' 6) \<and>
   length (fst (solveSitting (glpkStd unboundedSecond) (zeroPref 6))) = 2"
  by code_simp

text \<open>
  Claim C5, amended. Whenever the solver returns a status that is neither optimal nor
  feasible, the iteration throws. On a later iteration with the status infeasible or
  no-feasible-solution the error is the one stating that no single-cycle solution was
  found; on the first iteration, and on a later iteration with any other status, it is the
  generic solver failure. The messages of the two errors differ.
\<close>

theorem solver_rejection_errors:
  assumes "3 \<le> length pref"
    and "iter < MAX_SUBTOUR_ITERATIONS (length pref)"
    and "solve glpk iter (lpProblemForIter (baseLpProblem glpk pref) cs) (solverOptions glpk)
           = Inr result"
    and "res_status result \<noteq> GLP_OPT glpk" and "res_status result \<noteq> GLP_FEAS glpk"
  shows "snd (solveLoop glpk pref iter cs submitted) =
           Inl (if iter > 0 \<and> (res_status result = GLP_INFEAS glpk \<or>
                                 res_status result = GLP_NOFEAS glpk)
                then NoSingleCycle (iter + 1) (statusText glpk (res_status result))
                else SolverFailed (statusText glpk (res_status result)) (res_status result)) \<and>
         (iter = 0 \<and> cs = [] \<longrightarrow>
            snd (solveSitting glpk pref) =
              Inl (SolverFailed (statusText glpk (res_status result)) (res_status result))) \<and>
         (\<forall>j t t' s. message (NoSingleCycle j t) \<noteq> message (SolverFailed t' s))"
proof -
  have a: "snd (solveLoop glpk pref iter cs sub) =
           Inl (if iter > 0 \<and> (res_status result = GLP_INFEAS glpk \<or>
                                 res_status result = GLP_NOFEAS glpk)
                then NoSingleCycle (iter + 1) (statusText glpk (res_status result))
                else SolverFailed (statusText glpk (res_status result)) (res_status result))" for sub
    using assms(2-5) by (rule solveLoop_rejected)
  have b: "iter = 0 \<and> cs = [] \<longrightarrow>
            snd (solveSitting glpk pref) =
              Inl (SolverFailed (statusText glpk (res_status result)) (res_status result))"
    using a[of "[]"] assms(1) by (auto simp: solveSitting_ge3)
  show ?thesis using a b message_rejections_distinct by blast
qed

theorem solver_rejection_errors_witness:
  "3 \<le> length (zeroPref 3) \<and>
   (1::nat) < MAX_SUBTOUR_ITERATIONS (length (zeroPref 3)) \<and>
   solve (glpkStd (constantSolver infeasibleResult)) 1
     (lpProblemForIter (baseLpProblem (glpkStd (constantSolver infeasibleResult)) (zeroPref 3)) [])
     (solverOptions (glpkStd (constantSolver infeasibleResult))) = Inr infeasibleResult \<and>
   res_status infeasibleResult \<noteq> GLP_OPT (glpkStd (constantSolver infeasibleResult)) \<and>
   res_status infeasibleResult \<noteq> GLP_FEAS (glpkStd (constantSolver infeasibleResult)) \<and>
   snd (solveLoop (glpkStd (constantSolver infeasibleResult)) (zeroPref 3) 1 [] []) =
     Inl (NoSingleCycle 2 ''Infeasible'')"
proof -
  let ?g = "glpkStd (constantSolver infeasibleResult)"
  have h1: "3 \<le> length (zeroPref 3)"
    by code_simp
  have h2: "(1::nat) < MAX_SUBTOUR_ITERATIONS (length (zeroPref 3))"
    by code_simp
  have h3: "solve ?g 1 (lpProblemForIter (baseLpProblem ?g (zeroPref 3)) []) (solverOptions ?g)
              = Inr infeasibleResult"
    by (simp add: glpkStd_def constantSolver_def)
  have h4: "res_status infeasibleResult \<noteq> GLP_OPT ?g"
    by (simp add: glpkStd_def infeasibleResult_def)
  have h5: "res_status infeasibleResult \<noteq> GLP_FEAS ?g"
    by (simp add: glpkStd_def infeasibleResult_def)
  have e: "(if (1::nat) > 0 \<and> (res_status infeasibleResult = GLP_INFEAS ?g \<or>
                                 res_status infeasibleResult = GLP_NOFEAS ?g)
            then NoSingleCycle (1 + 1) (statusText ?g (res_status infeasibleResult))
            else SolverFailed (statusText ?g (res_status infeasibleResult))
                   (res_status infeasibleResult)) = NoSingleCycle 2 ''Infeasible''"
    by code_simp
  from solver_rejection_errors[OF h1 h2 h3 h4 h5, of "[]"]
  have "snd (solveLoop ?g (zeroPref 3) 1 [] []) = Inl (NoSingleCycle 2 ''Infeasible'')"
    unfolding e by (rule conjunct1)
  with h1 h2 h3 h4 h5 show ?thesis by (intro conjI)
qed

subsection \<open>The verification of the result matrix\<close>

text \<open>
  No run of \<^verbatim>\<open>solveSitting\<close> ends with the error of the \<^verbatim>\<open>catch\<close> clause that follows
  the assertions on the result matrix.
\<close>

lemma iteration_no_invalid_matrix:
  "iteration glpk n iter cs p \<noteq> Throw (InvalidMatrix k msg)"
  by (auto simp: iteration_def afterSolve_def afterSubtours_def Let_def
      split: sum.splits if_splits prod.splits)

lemma solveLoop_no_invalid_matrix:
  "snd (solveLoop glpk pref iter cs submitted) \<noteq> Inl (InvalidMatrix k msg)"
proof (induction glpk pref iter cs submitted rule: solveLoop.induct)
  case (1 glpk pref iter cs submitted)
  show ?case
  proof (cases "iter < MAX_SUBTOUR_ITERATIONS (length pref)")
    case False
    then show ?thesis by (simp add: solveLoop.simps)
  next
    case True
    let ?p = "lpProblemForIter (baseLpProblem glpk pref) cs"
    show ?thesis
    proof (cases "iteration glpk (length pref) iter cs ?p")
      case (Return vm)
      with True show ?thesis by (simp add: solveLoop.simps[of glpk pref iter] Let_def)
    next
      case (Throw e)
      with True iteration_no_invalid_matrix[of glpk "length pref" iter cs ?p k msg]
      show ?thesis by (auto simp: solveLoop.simps[of glpk pref iter] Let_def)
    next
      case (Continue cs1)
      with True "1.IH"[OF True refl Continue] show ?thesis
        by (simp add: solveLoop.simps[of glpk pref iter] Let_def)
    qed
  qed
qed

lemma solveSitting_no_invalid_matrix:
  "snd (solveSitting glpk pref) \<noteq> Inl (InvalidMatrix k msg)"
  using solveLoop_no_invalid_matrix[of glpk pref 0 "[]" "[]" k msg]
  by (simp add: solveSitting_def Let_def)

text \<open>
  Claim C6 describes what the block that verifies the result matrix is written to do, and
  the code misses it: the block checks with \<^verbatim>\<open>console.assert\<close>, which never throws, so its
  \<^verbatim>\<open>catch\<close> clause (the only place that would throw "Solver returned an invalid matrix")
  is never entered. Here the solver's answer for four people rounds to a matrix that is not
  symmetric; the assertions of the block do not hold for it, and \<^verbatim>\<open>solveSitting\<close> returns it
  as the seating.
\<close>

theorem invalid_matrix_returned:
  "\<not> resultAssertionsHold 4 asymmetricMatrix \<and>
   asymmetricMatrix ! 0 ! 1 \<noteq> asymmetricMatrix ! 1 ! 0 \<and>
   buildVarMatrix 4 (res_vars asymmetricResult) = asymmetricMatrix \<and>
   snd (solveSitting (glpkStd (constantSolver asymmetricResult)) (zeroPref 4)) =
     Inr asymmetricMatrix"
  by code_simp

subsection \<open>The cycle extractor\<close>

lemma neighborsOf_mem:
  "k \<in> set (neighborsOf m v) \<longleftrightarrow> k < length m \<and> entryIsOne m v k"
  by (auto simp: neighborsOf_def)

lemma linked_Cons:
  "linked m (x # xs) e = (entryIsOne m x (hd (xs @ [e])) \<and> linked m xs e)"
  by (cases xs) simp_all

lemma walkCycle_sound:
  assumes "walkCycle m step path cur prev = Inr (path', cur')"
    and "step \<le> length m" and "cur < length m"
  shows "\<exists>rest. path' = path @ rest \<and> length rest = length m - step \<and>
           hd (rest @ [cur']) = cur \<and> linked m rest cur' \<and> cur' < length m \<and>
           (\<forall>v \<in> set rest. v < length m \<and> length (neighborsOf m v) = 2)"
  using assms
proof (induction m step path cur prev arbitrary: path' cur' rule: walkCycle.induct)
  case (1 m step path cur prev)
  show ?case
  proof (cases "step < length m")
    case False
    with "1.prems" have "path' = path" "cur' = cur"
      by (simp_all add: walkCycle.simps[of m step])
    with False "1.prems" show ?thesis by simp
  next
    case True
    let ?nb = "neighborsOf m cur"
    let ?next = "if int (?nb ! 0) = prev then ?nb ! 1 else ?nb ! 0"
    have deg: "length ?nb = 2"
      using True "1.prems"(1) by (auto simp: walkCycle.simps[of m step] Let_def split: if_splits)
    have rec: "walkCycle m (step + 1) (path @ [cur]) ?next (int cur) = Inr (path', cur')"
      using True "1.prems"(1) deg by (simp add: walkCycle.simps[of m step] Let_def)
    have nextIn: "?next \<in> set ?nb"
      using deg by auto
    then have nextLt: "?next < length m" and adj: "entryIsOne m cur ?next"
      by (simp_all add: neighborsOf_mem)
    from "1.IH"[OF True refl refl _ rec _ nextLt] deg True
    obtain rest where rest: "path' = (path @ [cur]) @ rest" "length rest = length m - (step + 1)"
      "hd (rest @ [cur']) = ?next" "linked m rest cur'" "cur' < length m"
      "\<forall>v \<in> set rest. v < length m \<and> length (neighborsOf m v) = 2"
      by auto
    let ?r = "cur # rest"
    have "path' = path @ ?r" using rest(1) by simp
    moreover have "length ?r = length m - step" using rest(2) True by simp
    moreover have "hd (?r @ [cur']) = cur" by simp
    moreover have "linked m ?r cur'" using rest(3,4) adj by (simp add: linked_Cons)
    moreover have "\<forall>v \<in> set ?r. v < length m \<and> length (neighborsOf m v) = 2"
      using rest(6) deg "1.prems"(3) by simp
    ultimately show ?thesis using rest(5) by blast
  qed
qed

lemma extractTableCycle_sound:
  assumes "3 \<le> length m" and "extractTableCycle m = Inr p"
  shows "length p = length m \<and> distinct p \<and> set p = {0..<length m} \<and> hd p = 0 \<and>
         linked m p 0 \<and> (\<forall>v<length m. length (neighborsOf m v) = 2) \<and>
         walkCycle m 0 [] 0 (- 1) = Inr (p, 0)"
proof -
  let ?n = "length m"
  from assms obtain cur where w: "walkCycle m 0 [] 0 (- 1) = Inr (p, cur)"
    and c0: "cur = 0" and len: "length p = ?n" and card: "card (set p) = ?n"
    by (auto simp: extractTableCycle_def Let_def split: if_splits sum.splits prod.splits)
  have pos: "0 < ?n" using assms(1) by auto
  from walkCycle_sound[OF w _ pos]
  obtain rest where rest: "p = [] @ rest" "length rest = ?n - 0" "hd (rest @ [cur]) = 0"
    "linked m rest cur" "\<forall>v \<in> set rest. v < ?n \<and> length (neighborsOf m v) = 2"
    by auto
  have d: "distinct p" using len card by (simp add: card_distinct)
  have sub: "set p \<subseteq> {0..<?n}" using rest(1,5) by auto
  have seq: "set p = {0..<?n}"
    using sub card by (intro card_subset_eq) simp_all
  have hd0: "hd p = 0" using rest(1,2,3) assms(1) by (cases rest) auto
  have deg: "\<forall>v<?n. length (neighborsOf m v) = 2"
    using rest(1,5) seq by auto
  from len d seq hd0 rest(1,4) c0 deg w show ?thesis by simp
qed

lemma extractTableCycle_small:
  "(length m = 0 \<longrightarrow> extractTableCycle m = Inr []) \<and>
   (length m = 1 \<longrightarrow> extractTableCycle m = Inr [0]) \<and>
   (length m = 2 \<longrightarrow> extractTableCycle m = Inr [0, 1])"
  by (simp add: extractTableCycle_def)

lemma extractTableCycle_deviation:
  assumes "3 \<le> length m" and "length (m ! 0) = length m"
  shows "(\<forall>e. walkCycle m 0 [] 0 (- 1) = Inl e \<longrightarrow> extractTableCycle m = Inl e) \<and>
         (\<forall>path cur. walkCycle m 0 [] 0 (- 1) = Inr (path, cur) \<and> cur \<noteq> 0 \<longrightarrow>
            extractTableCycle m = Inl (NotReturned (length m) cur)) \<and>
         (\<forall>path. walkCycle m 0 [] 0 (- 1) = Inr (path, 0) \<and> \<not> distinct path \<longrightarrow>
            extractTableCycle m = Inl (BadPath (length path) (card (set path)) (length m)))"
proof -
  have "\<not> distinct path \<Longrightarrow> length path \<noteq> length m \<or> card (set path) \<noteq> length m" for path :: "nat list"
    using card_distinct[of path] by auto
  then show ?thesis
    using assms by (auto simp: extractTableCycle_def Let_def)
qed

lemma neighborsOf_distinct: "distinct (neighborsOf m v)"
  by (simp add: neighborsOf_def)

lemma isSingleCycleMatrix_facts:
  assumes "isSingleCycleMatrix m c"
  shows "length c = length m" and "distinct c" and "set c = {0..<length m}"
    and "\<And>u v. u < length m \<Longrightarrow> v < length m \<Longrightarrow> entryIsOne m u v = cycleAdjacent c u v"
proof -
  from assms have len: "length c = length m" and d: "distinct c"
    and sub: "\<forall>v \<in> set c. v < length m"
    and rows: "\<forall>row \<in> set m. length row = length m"
    and ent: "\<forall>u \<in> set [0..<length m]. \<forall>v \<in> set [0..<length m].
                m ! u ! v = (if cycleAdjacent c u v then 1 else 0)"
    by (simp_all add: isSingleCycleMatrix_def list_all_iff)
  show "length c = length m" by (rule len)
  show "distinct c" by (rule d)
  have "card (set c) = length m" using d len by (simp add: distinct_card)
  moreover have "set c \<subseteq> {0..<length m}" using sub by auto
  ultimately show "set c = {0..<length m}"
    by (intro card_subset_eq) simp_all
  fix u v assume u: "u < length m" and v: "v < length m"
  have "length (m ! u) = length m" using rows u by simp
  moreover have "m ! u ! v = (if cycleAdjacent c u v then 1 else 0)"
    using ent u v by simp
  ultimately show "entryIsOne m u v = cycleAdjacent c u v"
    using u v by (simp add: entryIsOne_def)
qed

lemma pred_mod_fact1:
  fixes n k k0 :: nat
  assumes "k < n" and "Suc k mod n = k0"
  shows "k = (k0 + n - 1) mod n"
proof (cases "Suc k = n")
  case True
  with assms show ?thesis by auto
next
  case False
  with assms have "Suc k < n" by simp
  with assms have "k0 = Suc k" by simp
  then show ?thesis using assms(1) by simp
qed

lemma pred_mod_fact2:
  fixes n k0 :: nat
  assumes "k0 < n"
  shows "Suc ((k0 + n - 1) mod n) mod n = k0"
proof (cases k0)
  case 0
  with assms show ?thesis by simp
next
  case (Suc j)
  with assms have "(k0 + n - 1) mod n = j" by simp
  with Suc assms show ?thesis by simp
qed

lemma cycleAdjacent_at:
  assumes "distinct c" and "k0 < length c"
  shows "cycleAdjacent c (c ! k0) v \<longleftrightarrow>
           v = c ! (Suc k0 mod length c) \<or> v = c ! ((k0 + length c - 1) mod length c)"
proof
  let ?n = "length c"
  assume "cycleAdjacent c (c ! k0) v"
  then obtain k where k: "k < ?n"
    and alt: "(c ! k = c ! k0 \<and> c ! (Suc k mod ?n) = v) \<or> (c ! k = v \<and> c ! (Suc k mod ?n) = c ! k0)"
    by (auto simp: cycleAdjacent_def list_ex_iff)
  from alt show "v = c ! (Suc k0 mod ?n) \<or> v = c ! ((k0 + ?n - 1) mod ?n)"
  proof
    assume a: "c ! k = c ! k0 \<and> c ! (Suc k mod ?n) = v"
    then have "k = k0" using assms k by (simp add: nth_eq_iff_index_eq)
    with a show ?thesis by simp
  next
    assume a: "c ! k = v \<and> c ! (Suc k mod ?n) = c ! k0"
    have "0 < ?n" using k by auto
    then have "Suc k mod ?n < ?n" by simp
    with a have "Suc k mod ?n = k0" using assms by (simp add: nth_eq_iff_index_eq)
    with k have "k = (k0 + ?n - 1) mod ?n" by (rule pred_mod_fact1)
    with a show ?thesis by simp
  qed
next
  let ?n = "length c"
  assume "v = c ! (Suc k0 mod ?n) \<or> v = c ! ((k0 + ?n - 1) mod ?n)"
  then show "cycleAdjacent c (c ! k0) v"
  proof
    assume "v = c ! (Suc k0 mod ?n)"
    then show ?thesis using assms(2)
      by (auto simp: cycleAdjacent_def list_ex_iff intro!: bexI[of _ k0])
  next
    assume v: "v = c ! ((k0 + ?n - 1) mod ?n)"
    have "0 < ?n" using assms(2) by auto
    then have "(k0 + ?n - 1) mod ?n < ?n" by simp
    moreover have "c ! (Suc ((k0 + ?n - 1) mod ?n) mod ?n) = c ! k0"
      using pred_mod_fact2[OF assms(2)] by simp
    ultimately show ?thesis using v
      by (auto simp: cycleAdjacent_def list_ex_iff intro!: bexI[of _ "(k0 + ?n - 1) mod ?n"])
  qed
qed

lemma neighbors_at:
  assumes "isSingleCycleMatrix m c" and "k0 < length m"
  shows "set (neighborsOf m (c ! k0)) =
           {c ! (Suc k0 mod length m), c ! ((k0 + length m - 1) mod length m)}"
proof -
  note f = isSingleCycleMatrix_facts[OF assms(1)]
  have inr: "c ! k < length m" if "k < length m" for k
    using f(1,3) that by (metis atLeastLessThan_iff nth_mem)
  have u: "c ! k0 < length m" using inr assms(2) .
  have "k \<in> set (neighborsOf m (c ! k0)) \<longleftrightarrow>
          k \<in> {c ! (Suc k0 mod length m), c ! ((k0 + length m - 1) mod length m)}" for k
  proof
    assume "k \<in> set (neighborsOf m (c ! k0))"
    then have "k < length m" "entryIsOne m (c ! k0) k" by (simp_all add: neighborsOf_mem)
    then have "cycleAdjacent c (c ! k0) k" using f(4)[OF u] by simp
    then show "k \<in> {c ! (Suc k0 mod length m), c ! ((k0 + length m - 1) mod length m)}"
      using cycleAdjacent_at[OF f(2), of k0 k] assms(2) f(1) by simp
  next
    assume a: "k \<in> {c ! (Suc k0 mod length m), c ! ((k0 + length m - 1) mod length m)}"
    have "0 < length m" using assms(2) by auto
    then have "Suc k0 mod length m < length m" "(k0 + length m - 1) mod length m < length m"
      by simp_all
    then have klt: "k < length m" using a inr by auto
    have "cycleAdjacent c (c ! k0) k"
      using cycleAdjacent_at[OF f(2), of k0 k] assms(2) f(1) a by simp
    then have "entryIsOne m (c ! k0) k" using f(4)[OF u klt] by simp
    with klt show "k \<in> set (neighborsOf m (c ! k0))" by (simp add: neighborsOf_mem)
  qed
  then show ?thesis by blast
qed

lemma two_elements:
  assumes "distinct xs" and "set xs = {a, b}" and "a \<noteq> b"
  shows "length xs = 2 \<and> ((xs ! 0 = a \<and> xs ! 1 = b) \<or> (xs ! 0 = b \<and> xs ! 1 = a))"
proof -
  have "length xs = card (set xs)" using assms(1) by (simp add: distinct_card)
  also have "\<dots> = 2" using assms(2,3) by simp
  finally have len: "length xs = 2" .
  then obtain x y where xs: "xs = [x, y]"
    by (cases xs; cases "tl xs") auto
  with assms show ?thesis by auto
qed

lemma neighbors_at_int:
  assumes "isSingleCycleMatrix m c" and "0 \<le> q" and "q < int (length m)"
  shows "set (neighborsOf m (c ! nat q)) =
           {c ! nat ((q + 1) mod int (length m)), c ! nat ((q - 1) mod int (length m))}"
proof -
  let ?n = "length m"
  have k0: "nat q < ?n" using assms(2,3) by simp
  have a: "Suc (nat q) mod ?n = nat ((q + 1) mod int ?n)"
  proof -
    have "nat ((q + 1) mod int ?n) = nat (q + 1) mod nat (int ?n)"
      using assms(2) by (intro nat_mod_distrib) simp_all
    also have "\<dots> = Suc (nat q) mod ?n" using assms(2) by (simp add: Suc_nat_eq_nat_zadd1 add.commute)
    finally show ?thesis by simp
  qed
  have b: "(nat q + ?n - 1) mod ?n = nat ((q - 1) mod int ?n)"
  proof -
    have "(q - 1) mod int ?n = (q - 1 + int ?n) mod int ?n" by simp
    then have "nat ((q - 1) mod int ?n) = nat ((q - 1 + int ?n) mod int ?n)" by simp
    also have "\<dots> = nat (q - 1 + int ?n) mod nat (int ?n)"
      using assms(2,3) by (intro nat_mod_distrib) simp_all
    also have "nat (q - 1 + int ?n) = nat q + ?n - 1" using assms(2,3) by linarith
    finally show ?thesis by simp
  qed
  from neighbors_at[OF assms(1) k0] a b show ?thesis by simp
qed

lemma mod_succ_pred_neq:
  fixes n x :: int
  assumes "3 \<le> n"
  shows "(x + 1) mod n \<noteq> (x - 1) mod n"
proof
  assume "(x + 1) mod n = (x - 1) mod n"
  then have "n dvd (x + 1) - (x - 1)" by (simp add: mod_eq_dvd_iff)
  then have "n dvd 2" by simp
  then have "n \<le> 2" by (rule zdvd_imp_le) simp
  with assms show False by simp
qed

lemma ringNode_pos:
  assumes "0 < length c"
  shows "0 \<le> (int p0 + d * int s) mod int (length c)"
    and "(int p0 + d * int s) mod int (length c) < int (length c)"
  using assms by simp_all

lemma ringNode_eq_iff:
  assumes "distinct c" and "0 < length c"
  shows "ringNode c p0 d s = ringNode c p0 d' t \<longleftrightarrow>
           (int p0 + d * int s) mod int (length c) = (int p0 + d' * int t) mod int (length c)"
proof -
  let ?a = "(int p0 + d * int s) mod int (length c)"
  let ?b = "(int p0 + d' * int t) mod int (length c)"
  have ni: "0 < int (length c)" using assms(2) by simp
  have "0 \<le> ?a" "?a < int (length c)" "0 \<le> ?b" "?b < int (length c)"
    using ni by simp_all
  then have "nat ?a < length c" "nat ?b < length c" by linarith+
  then have "c ! nat ?a = c ! nat ?b \<longleftrightarrow> nat ?a = nat ?b"
    using assms(1) by (simp add: nth_eq_iff_index_eq)
  also have "\<dots> \<longleftrightarrow> ?a = ?b" using \<open>0 \<le> ?a\<close> \<open>0 \<le> ?b\<close> by linarith
  finally show ?thesis by (simp add: ringNode_def)
qed

lemma ringNode_neighbors:
  assumes "isSingleCycleMatrix m c" and "0 < length m" and "d = 1 \<or> d = - 1" and "1 \<le> s"
  shows "set (neighborsOf m (ringNode c p0 d s)) =
           {ringNode c p0 d (s + 1), ringNode c p0 d (s - 1)}"
proof -
  note f = isSingleCycleMatrix_facts[OF assms(1)]
  let ?n = "int (length m)"
  let ?x = "int p0 + d * int s"
  have nb: "set (neighborsOf m (c ! nat (?x mod ?n))) =
      {c ! nat ((?x mod ?n + 1) mod ?n), c ! nat ((?x mod ?n - 1) mod ?n)}"
    using assms(2) by (intro neighbors_at_int[OF assms(1)]) simp_all
  have e1: "(?x mod ?n + 1) mod ?n = (?x + 1) mod ?n" by (simp add: mod_simps)
  have e2: "(?x mod ?n - 1) mod ?n = (?x - 1) mod ?n" by (simp add: mod_simps)
  have s1: "int (s - 1) = int s - 1" using assms(4) by simp
  from assms(3) show ?thesis
  proof
    assume d: "d = 1"
    have "?x + 1 = int p0 + d * int (s + 1)" "?x - 1 = int p0 + d * int (s - 1)"
      using d s1 by simp_all
    with nb e1 e2 show ?thesis by (simp add: ringNode_def f(1))
  next
    assume d: "d = - 1"
    have "?x + 1 = int p0 + d * int (s - 1)" "?x - 1 = int p0 + d * int (s + 1)"
      using d s1 by simp_all
    with nb e1 e2 show ?thesis by (auto simp: ringNode_def f(1))
  qed
qed

lemma ringNode_start_neighbors:
  assumes "isSingleCycleMatrix m c" and "0 < length m" and "p0 < length m"
  shows "set (neighborsOf m (c ! p0)) = {ringNode c p0 1 1, ringNode c p0 (- 1) 1}"
proof -
  note f = isSingleCycleMatrix_facts[OF assms(1)]
  have "set (neighborsOf m (c ! nat (int p0))) =
      {c ! nat ((int p0 + 1) mod int (length m)), c ! nat ((int p0 - 1) mod int (length m))}"
    using assms(3) by (intro neighbors_at_int[OF assms(1)]) simp_all
  then show ?thesis by (simp add: ringNode_def f(1))
qed

lemma ringNode_step_neq:
  assumes "distinct c" and "3 \<le> length c" and "d = 1 \<or> d = - 1" and "1 \<le> s"
  shows "ringNode c p0 d (s + 1) \<noteq> ringNode c p0 d (s - 1)"
proof -
  let ?n = "int (length c)"
  have n3: "3 \<le> ?n" using assms(2) by simp
  have pos: "0 < length c" using assms(2) by auto
  have s1: "int (s - 1) = int s - 1" using assms(4) by simp
  from assms(3) show ?thesis
  proof
    assume d: "d = 1"
    have "(int p0 + int s + 1) mod ?n \<noteq> (int p0 + int s - 1) mod ?n"
      using mod_succ_pred_neq[OF n3, of "int p0 + int s"] by simp
    then show ?thesis
      using d s1 by (simp add: ringNode_eq_iff[OF assms(1) pos] algebra_simps)
  next
    assume d: "d = - 1"
    have "(int p0 - int s + 1) mod ?n \<noteq> (int p0 - int s - 1) mod ?n"
      using mod_succ_pred_neq[OF n3, of "int p0 - int s"] by simp
    then have "(int p0 - int s - 1) mod ?n \<noteq> (int p0 - int s + 1) mod ?n" by simp
    then show ?thesis
      using d s1 by (simp add: ringNode_eq_iff[OF assms(1) pos] algebra_simps)
  qed
qed

lemma ringNode_start_neq:
  assumes "distinct c" and "3 \<le> length c"
  shows "ringNode c p0 1 1 \<noteq> ringNode c p0 (- 1) 1"
proof -
  have n3: "3 \<le> int (length c)" using assms(2) by simp
  have pos: "0 < length c" using assms(2) by auto
  show ?thesis
    using mod_succ_pred_neq[OF n3, of "int p0"]
    by (simp add: ringNode_eq_iff[OF assms(1) pos])
qed

lemma ringNode_inj:
  assumes "distinct c" and "0 < length c" and "d = 1 \<or> d = - 1"
    and "s < length c" and "t < length c" and "ringNode c p0 d s = ringNode c p0 d t"
  shows "s = t"
proof -
  let ?n = "int (length c)"
  from assms(6) have "(int p0 + d * int s) mod ?n = (int p0 + d * int t) mod ?n"
    by (simp add: ringNode_eq_iff[OF assms(1,2)])
  then have "?n dvd (int p0 + d * int s) - (int p0 + d * int t)"
    by (simp add: mod_eq_dvd_iff)
  then have "?n dvd d * (int s - int t)" by (simp add: algebra_simps)
  then have dv: "?n dvd int s - int t" using assms(3) by (auto simp: dvd_diff_commute)
  show ?thesis
  proof (rule ccontr)
    assume "s \<noteq> t"
    then have nz: "int s - int t \<noteq> 0" by simp
    from dvd_imp_le_int[OF nz dv] have "?n \<le> \<bar>int s - int t\<bar>" by simp
    with assms(4,5) show False by linarith
  qed
qed

lemma ringNode_zero: "p0 < length c \<Longrightarrow> ringNode c p0 d 0 = c ! p0"
  by (simp add: ringNode_def)

lemma ringNode_full: "p0 < length c \<Longrightarrow> ringNode c p0 d (length c) = c ! p0"
  by (simp add: ringNode_def)

lemma walkCycle_ring:
  assumes "isSingleCycleMatrix m c" and "3 \<le> length m" and "p0 < length m"
    and "d = 1 \<or> d = - 1" and "1 \<le> s" and "s \<le> length m" and "k = length m - s"
  shows "walkCycle m s (map (ringNode c p0 d) [0..<s]) (ringNode c p0 d s)
           (int (ringNode c p0 d (s - 1)))
         = Inr (map (ringNode c p0 d) [0..<length m], ringNode c p0 d (length m))"
  using assms(5,6,7)
proof (induction k arbitrary: s)
  case 0
  then have "s = length m" by simp
  then show ?case by (simp add: walkCycle.simps[of m "length m"])
next
  case (Suc k)
  note f = isSingleCycleMatrix_facts[OF assms(1)]
  let ?g = "ringNode c p0 d"
  let ?nb = "neighborsOf m (?g s)"
  from Suc.prems have slt: "s < length m" by simp
  have pos: "0 < length m" using assms(2) by auto
  have c3: "3 \<le> length c" using assms(2) f(1) by simp
  have st: "set ?nb = {?g (s + 1), ?g (s - 1)}"
    using ringNode_neighbors[OF assms(1) pos assms(4) Suc.prems(1)] .
  have ne: "?g (s + 1) \<noteq> ?g (s - 1)"
    using ringNode_step_neq[OF f(2) c3 assms(4) Suc.prems(1)] .
  from two_elements[OF neighborsOf_distinct st ne]
  have len: "length ?nb = 2"
    and alt: "(?nb ! 0 = ?g (s + 1) \<and> ?nb ! 1 = ?g (s - 1)) \<or>
              (?nb ! 0 = ?g (s - 1) \<and> ?nb ! 1 = ?g (s + 1))"
    by simp_all
  have nxt: "(if int (?nb ! 0) = int (?g (s - 1)) then ?nb ! 1 else ?nb ! 0) = ?g (s + 1)"
    using alt ne by auto
  have "walkCycle m s (map ?g [0..<s]) (?g s) (int (?g (s - 1)))
      = walkCycle m (s + 1) (map ?g [0..<s] @ [?g s]) (?g (s + 1)) (int (?g s))"
    using slt len nxt by (simp add: walkCycle.simps[of m s] Let_def)
  also have "\<dots> = walkCycle m (s + 1) (map ?g [0..<s + 1]) (?g (s + 1)) (int (?g (s + 1 - 1)))"
    by simp
  also have "\<dots> = Inr (map ?g [0..<length m], ?g (length m))"
    using Suc.prems slt by (intro Suc.IH) simp_all
  finally show ?case .
qed

lemma walkCycle_start:
  assumes "isSingleCycleMatrix m c" and "3 \<le> length m"
  shows "\<exists>p. walkCycle m 0 [] 0 (- 1) = Inr (p, 0) \<and> length p = length m \<and> distinct p"
proof -
  note f = isSingleCycleMatrix_facts[OF assms(1)]
  have pos: "0 < length m" using assms(2) by auto
  have c3: "3 \<le> length c" using assms(2) f(1) by simp
  have cpos: "0 < length c" using pos f(1) by simp
  have "0 \<in> set c" using f(3) pos by simp
  then obtain p0 where p0: "p0 < length c" "c ! p0 = 0"
    by (auto simp: in_set_conv_nth)
  then have p0m: "p0 < length m" using f(1) by simp
  let ?nb = "neighborsOf m 0"
  have st: "set ?nb = {ringNode c p0 1 1, ringNode c p0 (- 1) 1}"
    using ringNode_start_neighbors[OF assms(1) pos p0m] p0(2) by simp
  have ne: "ringNode c p0 1 1 \<noteq> ringNode c p0 (- 1) 1"
    using ringNode_start_neq[OF f(2) c3] .
  from two_elements[OF neighborsOf_distinct st ne]
  have len: "length ?nb = 2"
    and alt: "?nb ! 0 = ringNode c p0 1 1 \<or> ?nb ! 0 = ringNode c p0 (- 1) 1"
    by auto
  then obtain d :: int where d: "d = 1 \<or> d = - 1" and nb0: "?nb ! 0 = ringNode c p0 d 1"
    by auto
  let ?g = "ringNode c p0 d"
  have g0: "?g 0 = 0" using ringNode_zero[OF p0(1)] p0(2) by simp
  have gn: "?g (length m) = 0" using ringNode_full[OF p0(1), of d] p0(2) f(1) by simp
  have "walkCycle m 0 [] 0 (- 1) = walkCycle m 1 [0] (?nb ! 0) 0"
    using pos len by (simp add: walkCycle.simps[of m 0] Let_def)
  also have "\<dots> = walkCycle m 1 (map ?g [0..<1]) (?g 1) (int (?g (1 - 1)))"
    using nb0 g0 by simp
  also have "\<dots> = Inr (map ?g [0..<length m], ?g (length m))"
    using assms(2) by (intro walkCycle_ring[OF assms(1,2) p0m d]) simp_all
  finally have w: "walkCycle m 0 [] 0 (- 1) = Inr (map ?g [0..<length m], 0)"
    using gn by simp
  have "inj_on ?g (set [0..<length m])"
    using ringNode_inj[OF f(2) cpos d] f(1) by (auto simp: inj_on_def)
  then have "distinct (map ?g [0..<length m])"
    by (simp add: distinct_map)
  with w show ?thesis by auto
qed

lemma extractTableCycle_complete:
  assumes "isSingleCycleMatrix m c" and "3 \<le> length m"
  shows "\<exists>p. extractTableCycle m = Inr p"
proof -
  from walkCycle_start[OF assms] obtain p
    where p: "walkCycle m 0 [] 0 (- 1) = Inr (p, 0)" "length p = length m" "distinct p"
    by blast
  have "card (set p) = length m" using p(2,3) by (simp add: distinct_card)
  moreover have "length (m ! 0) = length m"
  proof -
    have "m ! 0 \<in> set m" using assms(2) by (intro nth_mem) auto
    moreover have "\<forall>row \<in> set m. length row = length m"
      using assms(1) by (simp add: isSingleCycleMatrix_def list_all_iff)
    ultimately show ?thesis by blast
  qed
  ultimately have "extractTableCycle m = Inr p"
    using assms(2) p by (auto simp: extractTableCycle_def Let_def)
  then show ?thesis ..
qed

text \<open>
  Claim C8. For an \<open>n \<times> n\<close> matrix that is a single cycle spanning all \<open>n \<ge> 3\<close> nodes,
  \<^verbatim>\<open>extractTableCycle\<close> returns a sequence. Whenever it returns a sequence for \<open>n \<ge> 3\<close>, the
  sequence has \<open>n\<close> distinct entries, the nodes \<open>0, \<dots>, n - 1\<close>, starts at node 0, its
  consecutive entries are adjacent in the matrix and its last entry is adjacent to node 0,
  and every node has exactly two neighbours. It throws on a deviation: when a visited node
  has a number of neighbours other than 2 (and so whenever some node has), when the walk
  does not stand at node 0 after \<open>n\<close> steps, and when the path repeats a node. For \<open>n = 0\<close> it
  returns the empty sequence, for \<open>n = 1\<close> the sequence \<open>[0]\<close> and for \<open>n = 2\<close> the sequence
  \<open>[0, 1]\<close>.
\<close>

theorem extractTableCycle_correct:
  "(3 \<le> length m \<and> isSingleCycleMatrix m c \<longrightarrow> (\<exists>p. extractTableCycle m = Inr p)) \<and>
   (3 \<le> length m \<and> extractTableCycle m = Inr p \<longrightarrow>
      length p = length m \<and> distinct p \<and> set p = {0..<length m} \<and> hd p = 0 \<and>
      linked m p 0 \<and> (\<forall>v<length m. length (neighborsOf m v) = 2)) \<and>
   (3 \<le> length m \<and> (\<exists>v<length m. length (neighborsOf m v) \<noteq> 2) \<longrightarrow>
      (\<exists>e. extractTableCycle m = Inl e)) \<and>
   (3 \<le> length m \<and> length (m ! 0) = length m \<longrightarrow>
      (\<forall>e. walkCycle m 0 [] 0 (- 1) = Inl e \<longrightarrow> extractTableCycle m = Inl e) \<and>
      (\<forall>path cur. walkCycle m 0 [] 0 (- 1) = Inr (path, cur) \<and> cur \<noteq> 0 \<longrightarrow>
         extractTableCycle m = Inl (NotReturned (length m) cur)) \<and>
      (\<forall>path. walkCycle m 0 [] 0 (- 1) = Inr (path, 0) \<and> \<not> distinct path \<longrightarrow>
         extractTableCycle m = Inl (BadPath (length path) (card (set path)) (length m)))) \<and>
   (length m = 0 \<longrightarrow> extractTableCycle m = Inr []) \<and>
   (length m = 1 \<longrightarrow> extractTableCycle m = Inr [0]) \<and>
   (length m = 2 \<longrightarrow> extractTableCycle m = Inr [0, 1])"
proof -
  have a: "3 \<le> length m \<and> isSingleCycleMatrix m c \<longrightarrow> (\<exists>p. extractTableCycle m = Inr p)"
    using extractTableCycle_complete[of m c] by blast
  have b: "3 \<le> length m \<and> extractTableCycle m = Inr p \<longrightarrow>
      length p = length m \<and> distinct p \<and> set p = {0..<length m} \<and> hd p = 0 \<and>
      linked m p 0 \<and> (\<forall>v<length m. length (neighborsOf m v) = 2)"
    using extractTableCycle_sound[of m p] by blast
  have c: "3 \<le> length m \<and> (\<exists>v<length m. length (neighborsOf m v) \<noteq> 2) \<longrightarrow>
      (\<exists>e. extractTableCycle m = Inl e)"
  proof
    assume h: "3 \<le> length m \<and> (\<exists>v<length m. length (neighborsOf m v) \<noteq> 2)"
    show "\<exists>e. extractTableCycle m = Inl e"
    proof (cases "extractTableCycle m")
      case (Inl e)
      then show ?thesis by blast
    next
      case (Inr q)
      with h extractTableCycle_sound[of m q] show ?thesis by blast
    qed
  qed
  have d: "3 \<le> length m \<and> length (m ! 0) = length m \<longrightarrow>
      (\<forall>e. walkCycle m 0 [] 0 (- 1) = Inl e \<longrightarrow> extractTableCycle m = Inl e) \<and>
      (\<forall>path cur. walkCycle m 0 [] 0 (- 1) = Inr (path, cur) \<and> cur \<noteq> 0 \<longrightarrow>
         extractTableCycle m = Inl (NotReturned (length m) cur)) \<and>
      (\<forall>path. walkCycle m 0 [] 0 (- 1) = Inr (path, 0) \<and> \<not> distinct path \<longrightarrow>
         extractTableCycle m = Inl (BadPath (length path) (card (set path)) (length m)))"
    using extractTableCycle_deviation[of m] by blast
  from a b c d extractTableCycle_small[of m] show ?thesis by (intro conjI) blast+
qed

theorem extractTableCycle_correct_witness:
  "3 \<le> length fourCycle \<and> isSingleCycleMatrix fourCycle [2, 3, 0, 1] \<and>
   extractTableCycle fourCycle = Inr [0, 1, 2, 3] \<and>
   distinct [0, 1, 2, 3 :: nat] \<and> linked fourCycle [0, 1, 2, 3] 0 \<and>
   (\<exists>p. extractTableCycle fourCycle = Inr p) \<and>
   extractTableCycle [] = Inr [] \<and> extractTableCycle [[0]] = Inr [0] \<and>
   extractTableCycle [[0, 1], [1, 0]] = Inr [0, 1]"
proof -
  have h1: "3 \<le> length fourCycle" by code_simp
  have h2: "isSingleCycleMatrix fourCycle [2, 3, 0, 1]" by code_simp
  have h3: "extractTableCycle fourCycle = Inr [0, 1, 2, 3]" by code_simp
  note t = extractTableCycle_correct[of fourCycle "[2, 3, 0, 1]" "[0, 1, 2, 3]"]
  have a: "\<exists>p. extractTableCycle fourCycle = Inr p"
    using t[THEN conjunct1] h1 h2 by blast
  have b: "distinct [0, 1, 2, 3 :: nat]" "linked fourCycle [0, 1, 2, 3] 0"
    using t[THEN conjunct2, THEN conjunct1] h1 h3 by blast+
  have s0: "extractTableCycle [] = Inr []"
    using extractTableCycle_correct[of "[]" "[]" "[]"] by simp
  have s1: "extractTableCycle [[0]] = Inr [0]"
    using extractTableCycle_correct[of "[[0]]" "[]" "[]"] by simp
  have s2: "extractTableCycle [[0, 1], [1, 0]] = Inr [0, 1]"
    using extractTableCycle_correct[of "[[0, 1], [1, 0]]" "[]" "[]"] by simp
  from h1 h2 h3 b a s0 s1 s2 show ?thesis by (intro conjI)
qed

end
